(* ===== verification/Httpsys_Prelude.thy ===== *)
theory Httpsys_Prelude
  imports Main "HOL-Library.Word"
begin

text \<open>
  Shared vocabulary of the development: the machine integer types of the Rust sources, results,
  and the small part of the Rust standard library the sources use (\<open>Vec<u8>\<close> with its capacity,
  \<open>div_ceil\<close>, casts, UTF-8 decoding, integer parsing and printing, trimming).

  Conventions.  A Rust \<open>&str\<close> or \<open>String\<close> is a \<^typ>\<open>string\<close>, one \<^typ>\<open>char\<close> per UTF-8 byte; a byte
  buffer is a list of 8-bit words.  A \<open>usize\<close> (64 bits on the only target, 64-bit Windows) is a
  \<^typ>\<open>nat\<close> for lengths and capacities, and every narrowing cast \<open>as u32\<close> / \<open>as u16\<close> is written out
  with \<open>word_of_nat\<close>, which keeps the low bits exactly as the cast does.
\<close>

unbundle bit_operations_syntax

type_synonym u8 = "8 word"
type_synonym u16 = "16 word"
type_synonym u32 = "32 word"
type_synonym u64 = "64 word"

text \<open>Facts that let \<open>simp\<close> evaluate the casts, and the laws of the pools.\<close>

named_theorems cast_simps
named_theorems pool_laws

section \<open>Results\<close>

text \<open>\<open>Result<T, E>\<close> is \<open>'e + 'a\<close> with \<open>Inl\<close> the error; \<open>res_bind\<close> is the \<open>?\<close> operator.\<close>

fun res_bind :: "'e + 'a \<Rightarrow> ('a \<Rightarrow> 'e + 'b) \<Rightarrow> 'e + 'b" where
  "res_bind (Inl e) f = Inl e"
| "res_bind (Inr x) f = f x"

fun res_map :: "('a \<Rightarrow> 'b) \<Rightarrow> 'e + 'a \<Rightarrow> 'e + 'b" where
  "res_map f (Inl e) = Inl e"
| "res_map f (Inr x) = Inr (f x)"

fun res_ok :: "'e + 'a \<Rightarrow> 'a option" where
  "res_ok (Inl e) = None"
| "res_ok (Inr x) = Some x"

section \<open>Integers\<close>

definition div_ceil :: "nat \<Rightarrow> nat \<Rightarrow> nat" where
  "div_ceil a b = (a + b - 1) div b"

definition U64_MAX :: nat where
  "U64_MAX = 2 ^ 64 - 1"

text \<open>\<open>u64::saturating_add\<close> on values below \<open>2 ^ 64\<close>.\<close>

definition saturating_add64 :: "nat \<Rightarrow> nat \<Rightarrow> nat" where
  "saturating_add64 a b = min (a + b) U64_MAX"

text \<open>The cast \<open>usize as u32\<close>.\<close>

definition as_u32 :: "nat \<Rightarrow> u32" where
  "as_u32 n = word_of_nat n"

definition as_u16 :: "nat \<Rightarrow> u16" where
  "as_u16 n = word_of_nat n"

lemma unat_as_u32: "unat (as_u32 n) = n mod 2 ^ 32"
  by (simp add: as_u32_def unat_of_nat)

lemma unat_as_u16: "unat (as_u16 n) = n mod 2 ^ 16"
  by (simp add: as_u16_def unat_of_nat)

lemma unat_as_u32_id [cast_simps]: "n < 2 ^ 32 \<Longrightarrow> unat (as_u32 n) = n"
  by (simp add: unat_as_u32)

lemma unat_as_u16_id [cast_simps]: "n < 2 ^ 16 \<Longrightarrow> unat (as_u16 n) = n"
  by (simp add: unat_as_u16)

lemma as_u32_0_iff: "as_u32 n = 0 \<longleftrightarrow> n mod 2 ^ 32 = 0"
  by (metis unat_as_u32 unat_eq_zero)

lemma div_ceil_mult_ge:
  assumes b: "0 < b"
  shows "n \<le> div_ceil n b * b"
proof -
  let ?m = "n + b - 1"
  have "?m mod b < b" using b by simp
  moreover have "?m div b * b + ?m mod b = ?m" by (rule div_mult_mod_eq)
  ultimately show ?thesis unfolding div_ceil_def by linarith
qed

lemma div_ceil_mult_less:
  assumes b: "0 < b"
  shows "div_ceil n b * b < n + b"
proof -
  let ?m = "n + b - 1"
  have "?m div b * b + ?m mod b = ?m" by (rule div_mult_mod_eq)
  then show ?thesis unfolding div_ceil_def using b by linarith
qed

section \<open>\<open>Vec<u8>\<close>\<close>

text \<open>
  A growable byte vector: its initialised bytes and its capacity.  \<open>reserve\<close> grows at least
  geometrically (\<open>RawVec::grow_amortized\<close>: twice the old capacity, at least 8), \<open>reserve_exact\<close>
  to exactly what is asked.  Both count the room from the \<^emph>\<open>length\<close>, not from the capacity.
\<close>

record vec_u8 =
  vbytes :: "u8 list"
  vcap :: nat

definition vec_new :: vec_u8 where
  "vec_new = \<lparr>vbytes = [], vcap = 0\<rparr>"

definition vlen :: "vec_u8 \<Rightarrow> nat" where
  "vlen v = length (vbytes v)"

definition vec_wf :: "vec_u8 \<Rightarrow> bool" where
  "vec_wf v \<longleftrightarrow> vlen v \<le> vcap v"

definition vec_reserve :: "nat \<Rightarrow> vec_u8 \<Rightarrow> vec_u8" where
  "vec_reserve additional v =
     (if additional \<le> vcap v - vlen v then v
      else v\<lparr>vcap := max 8 (max (2 * vcap v) (vlen v + additional))\<rparr>)"

definition vec_reserve_exact :: "nat \<Rightarrow> vec_u8 \<Rightarrow> vec_u8" where
  "vec_reserve_exact additional v =
     (if additional \<le> vcap v - vlen v then v else v\<lparr>vcap := vlen v + additional\<rparr>)"

definition vec_clear :: "vec_u8 \<Rightarrow> vec_u8" where
  "vec_clear v = v\<lparr>vbytes := []\<rparr>"

definition vec_extend :: "u8 list \<Rightarrow> vec_u8 \<Rightarrow> vec_u8" where
  "vec_extend bs v = (vec_reserve (length bs) v)\<lparr>vbytes := vbytes v @ bs\<rparr>"

lemmas vec_defs = vec_new_def vlen_def vec_wf_def vec_reserve_def vec_reserve_exact_def
  vec_clear_def vec_extend_def

lemma vec_wf_new [simp]: "vec_wf vec_new"
  by (simp add: vec_defs)

lemma vbytes_reserve [simp]: "vbytes (vec_reserve n v) = vbytes v"
  by (simp add: vec_reserve_def)

lemma vbytes_reserve_exact [simp]: "vbytes (vec_reserve_exact n v) = vbytes v"
  by (simp add: vec_reserve_exact_def)

lemma vbytes_clear [simp]: "vbytes (vec_clear v) = []"
  by (simp add: vec_clear_def)

lemma vbytes_extend [simp]: "vbytes (vec_extend bs v) = vbytes v @ bs"
  by (simp add: vec_extend_def)

lemma vcap_clear [simp]: "vcap (vec_clear v) = vcap v"
  by (simp add: vec_clear_def)

lemma vec_wf_clear [simp]: "vec_wf (vec_clear v)"
  by (simp add: vec_defs)

lemma vec_reserve_room: "vec_wf v \<Longrightarrow> vlen v + n \<le> vcap (vec_reserve n v)"
  by (auto simp: vec_defs)

lemma vec_wf_reserve: "vec_wf v \<Longrightarrow> vec_wf (vec_reserve n v)"
  by (auto simp: vec_defs)

lemma vec_wf_reserve_exact: "vec_wf v \<Longrightarrow> vec_wf (vec_reserve_exact n v)"
  by (auto simp: vec_defs)

lemma vec_wf_extend: "vec_wf v \<Longrightarrow> vec_wf (vec_extend bs v)"
  by (auto simp: vec_defs)

lemma vcap_reserve_mono: "vcap v \<le> vcap (vec_reserve n v)"
  by (auto simp: vec_defs)

section \<open>Bytes of text\<close>

definition byte_at :: "string \<Rightarrow> nat \<Rightarrow> nat" where
  "byte_at s i = (if i < length s then of_char (s ! i) else 0)"

definition is_cont :: "nat \<Rightarrow> bool" where
  "is_cont b \<longleftrightarrow> 128 \<le> b \<and> b < 192"

text \<open>
  One step of the standard library's UTF-8 decoder (\<open>core::str::lossy\<close>): whether the next sequence
  is a valid character, and how many bytes it takes (for an invalid sequence, the bytes that one
  replacement character stands for).
\<close>

definition utf8_second_ok3 :: "nat \<Rightarrow> nat \<Rightarrow> bool" where
  "utf8_second_ok3 b0 b1 \<longleftrightarrow>
     (b0 = 224 \<and> 160 \<le> b1 \<and> b1 < 192) \<or> (225 \<le> b0 \<and> b0 \<le> 236 \<and> is_cont b1) \<or>
     (b0 = 237 \<and> 128 \<le> b1 \<and> b1 < 160) \<or> (238 \<le> b0 \<and> is_cont b1)"

definition utf8_second_ok4 :: "nat \<Rightarrow> nat \<Rightarrow> bool" where
  "utf8_second_ok4 b0 b1 \<longleftrightarrow>
     (b0 = 240 \<and> 144 \<le> b1 \<and> b1 < 192) \<or> (241 \<le> b0 \<and> b0 \<le> 243 \<and> is_cont b1) \<or>
     (b0 = 244 \<and> 128 \<le> b1 \<and> b1 < 144)"

definition utf8_next :: "string \<Rightarrow> bool \<times> nat" where
  "utf8_next s =
     (let b0 = byte_at s 0; b1 = byte_at s 1; b2 = byte_at s 2; b3 = byte_at s 3 in
      if b0 < 128 then (True, 1)
      else if 194 \<le> b0 \<and> b0 \<le> 223 then (if is_cont b1 then (True, 2) else (False, 1))
      else if 224 \<le> b0 \<and> b0 \<le> 239 then
        (if \<not> utf8_second_ok3 b0 b1 then (False, 1)
         else if \<not> is_cont b2 then (False, 2) else (True, 3))
      else if 240 \<le> b0 \<and> b0 \<le> 244 then
        (if \<not> utf8_second_ok4 b0 b1 then (False, 1)
         else if \<not> is_cont b2 then (False, 2)
         else if \<not> is_cont b3 then (False, 3) else (True, 4))
      else (False, 1))"

lemma utf8_next_pos: "0 < snd (utf8_next s)"
  by (simp add: utf8_next_def Let_def)

function utf8_chunks :: "string \<Rightarrow> (bool \<times> string) list" where
  "utf8_chunks s =
     (if s = [] then []
      else (fst (utf8_next s), take (snd (utf8_next s)) s) # utf8_chunks (drop (snd (utf8_next s)) s))"
  by pat_completeness auto
termination
  by (relation "measure length") (use utf8_next_pos in auto)

declare utf8_chunks.simps [simp del]

text \<open>\<open>std::str::from_utf8\<close> (its \<open>ok()\<close>) and \<open>String::from_utf8_lossy\<close>.\<close>

definition from_utf8 :: "string \<Rightarrow> string option" where
  "from_utf8 s = (if \<forall>c \<in> set (utf8_chunks s). fst c then Some s else None)"

definition replacement_char :: string where
  "replacement_char = [char_of (239::nat), char_of (191::nat), char_of (189::nat)]"

definition from_utf8_lossy :: "string \<Rightarrow> string" where
  "from_utf8_lossy s =
     concat (map (\<lambda>(valid, c). if valid then c else replacement_char) (utf8_chunks s))"

lemma utf8_chunks_Nil [simp]: "utf8_chunks [] = []"
  by (subst utf8_chunks.simps) simp

lemma concat_utf8_chunks: "concat (map snd (utf8_chunks s)) = s"
proof (induction s rule: utf8_chunks.induct)
  case (1 s)
  then show ?case
    by (cases "s = []") (simp_all add: utf8_chunks.simps [of s])
qed

lemma map_lossy_valid:
  "\<forall>c \<in> set cs. fst c \<Longrightarrow> map (\<lambda>(valid, c). if valid then c else replacement_char) cs = map snd cs"
  by (induction cs) auto

text \<open>Valid text is decoded to itself, lossily or not.\<close>

lemma from_utf8_lossy_valid: "from_utf8 s = Some t \<Longrightarrow> t = s \<and> from_utf8_lossy s = s"
  by (auto simp: from_utf8_def from_utf8_lossy_def map_lossy_valid concat_utf8_chunks
      split: if_splits)

text \<open>ASCII text is valid.\<close>

lemma utf8_chunks_ascii: "\<forall>c \<in> set s. of_char c < (128::nat) \<Longrightarrow> utf8_chunks s = map (\<lambda>c. (True, [c])) s"
proof (induction s)
  case Nil
  then show ?case by simp
next
  case (Cons c s)
  then have n: "utf8_next (c # s) = (True, 1)"
    by (simp add: utf8_next_def byte_at_def)
  from Cons show ?case
    by (subst utf8_chunks.simps) (simp add: n)
qed

lemma from_utf8_ascii: "\<forall>c \<in> set s. of_char c < (128::nat) \<Longrightarrow> from_utf8 s = Some s"
  by (auto simp: from_utf8_def utf8_chunks_ascii)

section \<open>Integer parsing and printing\<close>

definition digit_val :: "char \<Rightarrow> nat option" where
  "digit_val c =
     (let b = of_char c in if 48 \<le> b \<and> b \<le> (57::nat) then Some (b - 48) else None)"

text \<open>\<open>from_str_radix(10)\<close> for an unsigned type with the given maximum: every digit is checked,
  and an overflow is an error.\<close>

fun parse_digits :: "nat \<Rightarrow> nat \<Rightarrow> string \<Rightarrow> nat option" where
  "parse_digits mx acc [] = Some acc"
| "parse_digits mx acc (c # cs) =
     (case digit_val c of
        None \<Rightarrow> None
      | Some d \<Rightarrow> if 10 * acc + d \<le> mx then parse_digits mx (10 * acc + d) cs else None)"

definition parse_uint :: "nat \<Rightarrow> string \<Rightarrow> nat option" where
  "parse_uint mx s =
     (case s of
        [] \<Rightarrow> None
      | c # cs \<Rightarrow>
          if c = CHR ''+'' then (if cs = [] then None else parse_digits mx 0 cs)
          else parse_digits mx 0 s)"

fun decimal :: "nat \<Rightarrow> string" where
  "decimal n = (if n < 10 then [char_of (48 + n)] else decimal (n div 10) @ [char_of (48 + n mod 10)])"

declare decimal.simps [simp del]

lemma digit_val_char [simp]: "d < 10 \<Longrightarrow> digit_val (char_of (48 + d)) = Some d"
  by (simp add: digit_val_def Let_def)

lemma decimal_nonempty [simp]: "decimal n \<noteq> []"
  by (subst decimal.simps) simp

lemma parse_digits_append:
  "parse_digits mx acc (s @ t) =
     (case parse_digits mx acc s of None \<Rightarrow> None | Some a \<Rightarrow> parse_digits mx a t)"
  by (induction s arbitrary: acc) (auto split: option.splits)

lemma parse_digits_decimal: "n \<le> mx \<Longrightarrow> parse_digits mx 0 (decimal n) = Some n"
proof (induction n rule: decimal.induct)
  case (1 n)
  show ?case
  proof (cases "n < 10")
    case True
    with 1(2) show ?thesis by (simp add: decimal.simps [of n])
  next
    case False
    have le: "n div 10 \<le> mx" using 1(2) by (rule order_trans [OF div_le_dividend])
    have "parse_digits mx 0 (decimal (n div 10)) = Some (n div 10)"
      using 1(1) [OF False le] .
    moreover have "10 * (n div 10) + n mod 10 = n" by simp
    ultimately show ?thesis using False 1(2)
      by (simp add: decimal.simps [of n] parse_digits_append)
  qed
qed

lemma length_decimal: "n < 10 ^ k \<Longrightarrow> 0 < k \<Longrightarrow> length (decimal n) \<le> k"
proof (induction n arbitrary: k rule: decimal.induct)
  case (1 n)
  show ?case
  proof (cases "n < 10")
    case True
    with 1(3) show ?thesis by (simp add: decimal.simps [of n])
  next
    case False
    then obtain j where k: "k = Suc j" "0 < j"
      using 1(2,3) by (cases k; cases "k = 1") auto
    then have "n div 10 < 10 ^ j" using 1(2) by (simp add: div_less_iff_less_mult)
    with False k 1(1) [OF False] show ?thesis by (simp add: decimal.simps [of n])
  qed
qed

lemma length_decimal_u64: "n \<le> U64_MAX \<Longrightarrow> length (decimal n) \<le> 20"
  by (rule length_decimal) (simp_all add: U64_MAX_def)

lemma decimal_digits: "\<forall>c \<in> set (decimal n). digit_val c \<noteq> None"
proof (induction n rule: decimal.induct)
  case (1 n)
  then show ?case by (cases "n < 10") (simp_all add: decimal.simps [of n])
qed

text \<open>Printing a number and parsing it back is the identity, for every number that fits.\<close>

lemma parse_uint_decimal: "n \<le> mx \<Longrightarrow> parse_uint mx (decimal n) = Some n"
proof -
  assume le: "n \<le> mx"
  obtain c cs where s: "decimal n = c # cs" by (cases "decimal n") auto
  have "digit_val c \<noteq> None" using decimal_digits [of n] s by simp
  then have "c \<noteq> CHR ''+''" by (auto simp: digit_val_def)
  then show ?thesis using parse_digits_decimal [OF le] s by (simp add: parse_uint_def)
qed

lemma parse_digits_bound: "acc \<le> mx \<Longrightarrow> parse_digits mx acc s = Some n \<Longrightarrow> n \<le> mx"
  by (induction s arbitrary: acc) (auto split: option.splits if_splits)

lemma parse_uint_bound: "parse_uint mx s = Some n \<Longrightarrow> n \<le> mx"
  by (auto simp: parse_uint_def intro: parse_digits_bound [of 0] split: list.splits if_splits
      simp del: parse_digits.simps)

section \<open>Trimming\<close>

text \<open>
  \<open>str::trim\<close>, \<open>trim_start\<close> and \<open>trim_end\<close> remove characters with the Unicode property White_Space;
  \<open>white_space\<close> lists their UTF-8 encodings.  Text is valid UTF-8, where an encoding is never
  part of another one, so matching encodings is matching characters.
\<close>

definition bytes :: "nat list \<Rightarrow> string" where
  "bytes ns = map char_of ns"

definition white_space :: "string list" where
  "white_space =
     map (\<lambda>b. bytes [b]) [9, 10, 11, 12, 13, 32] @
     [bytes [194, 133], bytes [194, 160], bytes [225, 154, 128]] @
     map (\<lambda>b. bytes [226, 128, b]) [128, 129, 130, 131, 132, 133, 134, 135, 136, 137, 138, 168, 169, 175] @
     [bytes [226, 129, 159], bytes [227, 128, 128]]"

definition leading_seq :: "string list \<Rightarrow> string \<Rightarrow> string option" where
  "leading_seq ws s = find (\<lambda>w. w \<noteq> [] \<and> take (length w) s = w) ws"

lemma leading_seq_length:
  assumes "leading_seq ws s = Some w"
  shows "length s - length w < length s"
proof -
  from assms have w: "w \<noteq> []" and t: "take (length w) s = w"
    by (auto simp: leading_seq_def find_Some_iff)
  then have "s \<noteq> []" by auto
  with w show ?thesis by simp
qed

function strip_seqs :: "string list \<Rightarrow> string \<Rightarrow> string" where
  "strip_seqs ws s =
     (case leading_seq ws s of None \<Rightarrow> s | Some w \<Rightarrow> strip_seqs ws (drop (length w) s))"
  by pat_completeness auto
termination
  by (relation "measure (length \<circ> snd)") (auto dest: leading_seq_length)

declare strip_seqs.simps [simp del]

definition trim_start :: "string \<Rightarrow> string" where
  "trim_start s = strip_seqs white_space s"

definition trim_end :: "string \<Rightarrow> string" where
  "trim_end s = rev (strip_seqs (map rev white_space) (rev s))"

definition trim :: "string \<Rightarrow> string" where
  "trim s = trim_end (trim_start s)"

lemma strip_seqs_done: "leading_seq ws (strip_seqs ws s) = None"
proof (induction ws s rule: strip_seqs.induct)
  case (1 ws s)
  then show ?case
    by (cases "leading_seq ws s") (simp_all add: strip_seqs.simps [of ws s])
qed

lemma strip_seqs_id: "leading_seq ws s = None \<Longrightarrow> strip_seqs ws s = s"
  by (simp add: strip_seqs.simps [of ws s])

end
