(* ===== verification/Httpsys_Error.thy ===== *)
theory Httpsys_Error
  imports Httpsys_Prelude
begin

text \<open>
  The error type of the crate (\<open>crates/httpsys/src/error.rs\<close>): the \<open>Error\<close> enum, the mapping of
  Win32 status codes to results, the recovery of a code from an \<open>HRESULT\<close>, and the text an error
  is displayed as.  What the \<open>windows\<close> crate contributes is a parameter: the \<open>HRESULT\<close> encoding
  of a Win32 code (\<open>to_hresult\<close>) and the system's message for a code (\<open>message\<close>).
\<close>

datatype Error =
    Win32 u32
  | HeadersTooLarge u32
  | QueueClosed

type_synonym 'a result = "Error + 'a"

fun win32_code :: "Error \<Rightarrow> u32 option" where
  "win32_code (Win32 code) = Some code"
| "win32_code _ = None"

definition check :: "u32 \<Rightarrow> unit result" where
  "check ec = (if ec = 0 then Inr () else Inl (Win32 ec))"

text \<open>\<open>Error::from\<close> of a \<open>windows::core::Error\<close>, given its \<open>HRESULT\<close> (the signed code read as an
  unsigned 32-bit word, as the cast does).\<close>

definition error_from_hresult :: "u32 \<Rightarrow> Error" where
  "error_from_hresult hr = Win32 (hr AND 0xFFFF)"

definition fmt_error :: "(u32 \<Rightarrow> string) \<Rightarrow> Error \<Rightarrow> string" where
  "fmt_error message e =
     (case e of
        Win32 code \<Rightarrow>
          (let msg = trim (message code) in
           if msg = [] then ''Win32 error '' @ decimal (unat code)
           else ''Win32 error '' @ decimal (unat code) @ '': '' @ msg)
      | HeadersTooLarge needed \<Rightarrow>
          ''request headers too large: '' @ decimal (unat needed) @ '' bytes needed''
      | QueueClosed \<Rightarrow> ''request queue closed'')"

section \<open>Lemmas\<close>

lemma check_Inr_iff [simp]: "check ec = Inr u \<longleftrightarrow> ec = 0"
  by (simp add: check_def)

lemma check_Inl_iff: "check ec = Inl e \<longleftrightarrow> ec \<noteq> 0 \<and> e = Win32 ec"
  by (auto simp: check_def)

lemma and_FFFF_small: "unat (c :: u32) < 2 ^ 16 \<Longrightarrow> c AND 0xFFFF = c"
proof -
  assume "unat c < 2 ^ 16"
  then have "take_bit 16 c = c"
    by (simp add: word_unat_eq_iff unsigned_take_bit_eq take_bit_nat_eq_self)
  moreover have "(0xFFFF :: u32) = mask 16" by (simp add: mask_eq_exp_minus_1)
  ultimately show ?thesis by (simp add: take_bit_eq_mask)
qed

text \<open>
  An error code survives the trip through the \<open>HRESULT\<close> of the \<open>windows\<close> crate.  For every
  encoding that keeps the low 16 bits of the code (what \<open>HRESULT_FROM_WIN32\<close> documents), and every
  Win32 code below 65536, \<open>Error::from\<close> gives back exactly that code, so \<open>deliver_completion\<close>
  and the callers that match on a code see the value the API call failed with.
\<close>

lemma hresult_round_trip:
  assumes enc: "\<And>c. to_hresult c AND 0xFFFF = c AND 0xFFFF"
    and small: "unat code < 2 ^ 16"
  shows "win32_code (error_from_hresult (to_hresult code)) = Some code"
  using small by (simp add: error_from_hresult_def enc and_FFFF_small)

end
