(* ===== verification/Httpsys_Ffi.thy ===== *)
theory Httpsys_Ffi
  imports Httpsys_Error "HOL-Library.State_Monad" "HOL-Library.Multiset"
begin

text \<open>
  The calls the crate makes to acquire and release system resources, and the interface its RAII guards share.

  The callee (http.sys, the Win32 handle functions, \<open>std::thread\<close>) is a parameter: a \<open>kernel\<close>
  answers every call from the whole history of calls and answers so far, which is as general as a
  deterministic environment can be.  An operation of the crate is a computation of the library's
  state monad over that history.  From a history alone one reads off which resources are open
  (\<open>live\<close>); the locale \<open>raii\<close> says what a guard type promises about them.
\<close>

section \<open>Calls, answers, histories\<close>

datatype ffi_call =
    HttpInitialize | HttpTerminate
  | HttpCreateServerSession | HttpCloseServerSession u64
  | HttpCreateUrlGroup u64 | HttpCloseUrlGroup u64
  | HttpSetUrlGroupProperty u64 u64
  | HttpAddUrlToUrlGroup u64 string u64
  | HttpCreateRequestQueue | HttpCloseRequestQueue u64
  | HttpSetRequestQueueProperty u64 u32
  | HttpShutdownRequestQueue u64
  | CreateIoCompletionPort u64 "u64 option" u64 u32
  | SetFileCompletionNotificationModes u64 u8
  | PostQueuedCompletionStatus u64 u32 u64
  | CloseHandle u64
  | SpawnThread nat | JoinThread nat

text \<open>The status of a call (zero is success), the handle or identifier it produced, and the
  operating-system code behind a failed \<open>spawn\<close>, when there is one.\<close>

record ffi_reply =
  rc :: u32
  out :: u64
  os_error :: "u32 option"

type_synonym ffi_log = "(ffi_call \<times> ffi_reply) list"

type_synonym kernel = "ffi_log \<Rightarrow> ffi_call \<Rightarrow> ffi_reply"

type_synonym 'a ffi = "(ffi_log, 'a) state"

definition call :: "kernel \<Rightarrow> ffi_call \<Rightarrow> ffi_reply ffi" where
  "call K c = State (\<lambda>l. (K l c, l @ [(c, K l c)]))"

text \<open>The \<open>?\<close> operator: an error ends the computation, a value goes on.\<close>

definition try_bind :: "'a result ffi \<Rightarrow> ('a \<Rightarrow> 'b result ffi) \<Rightarrow> 'b result ffi" where
  "try_bind m f =
     do { r \<leftarrow> m; case r of Inl e \<Rightarrow> State_Monad.return (Inl e) | Inr x \<Rightarrow> f x }"

text \<open>A call whose status is turned into a result by \<open>Error::check\<close>.\<close>

definition check_call :: "kernel \<Rightarrow> ffi_call \<Rightarrow> u64 result ffi" where
  "check_call K c =
     do { r \<leftarrow> call K c;
          State_Monad.return (case check (rc r) of Inl e \<Rightarrow> Inl e | Inr u \<Rightarrow> Inr (out r)) }"

text \<open>A call of the \<open>windows\<close> crate that fails with an \<open>HRESULT\<close>.\<close>

definition hresult_call :: "kernel \<Rightarrow> ffi_call \<Rightarrow> u64 result ffi" where
  "hresult_call K c =
     do { r \<leftarrow> call K c;
          State_Monad.return (if rc r = 0 then Inr (out r) else Inl (error_from_hresult (rc r))) }"

text \<open>A call whose status is ignored or only printed.\<close>

definition call_ignored :: "kernel \<Rightarrow> ffi_call \<Rightarrow> unit ffi" where
  "call_ignored K c = do { r \<leftarrow> call K c; State_Monad.return () }"

fun for_each :: "('a \<Rightarrow> unit ffi) \<Rightarrow> 'a list \<Rightarrow> unit ffi" where
  "for_each f [] = State_Monad.return ()"
| "for_each f (x # xs) = do { u \<leftarrow> f x; for_each f xs }"

section \<open>Open resources\<close>

datatype resource =
    RInit | RSession u64 | RGroup u64 | RQueue u64 | RPort u64 | RThread nat

fun opens :: "ffi_call \<Rightarrow> u64 \<Rightarrow> resource option" where
  "opens HttpInitialize h = Some RInit"
| "opens HttpCreateServerSession h = Some (RSession h)"
| "opens (HttpCreateUrlGroup s) h = Some (RGroup h)"
| "opens HttpCreateRequestQueue h = Some (RQueue h)"
| "opens (CreateIoCompletionPort file None key n) h = Some (RPort h)"
| "opens (SpawnThread i) h = Some (RThread i)"
| "opens _ h = None"

fun closes :: "ffi_call \<Rightarrow> resource option" where
  "closes HttpTerminate = Some RInit"
| "closes (HttpCloseServerSession s) = Some (RSession s)"
| "closes (HttpCloseUrlGroup g) = Some (RGroup g)"
| "closes (HttpCloseRequestQueue q) = Some (RQueue q)"
| "closes (CloseHandle p) = Some (RPort p)"
| "closes (JoinThread i) = Some (RThread i)"
| "closes _ = None"

definition live_step :: "ffi_call \<times> ffi_reply \<Rightarrow> resource multiset \<Rightarrow> resource multiset" where
  "live_step ev m =
     (case closes (fst ev) of
        Some r \<Rightarrow> m - {#r#}
      | None \<Rightarrow>
          (case opens (fst ev) (out (snd ev)) of
             Some r \<Rightarrow> if rc (snd ev) = 0 then add_mset r m else m
           | None \<Rightarrow> m))"

definition live :: "ffi_log \<Rightarrow> resource multiset" where
  "live l = fold live_step l {#}"

text \<open>The resources a computation leaves open, from a history on.\<close>

definition live_after :: "'a ffi \<Rightarrow> ffi_log \<Rightarrow> resource multiset" where
  "live_after m l = live (snd (run_state m l))"

section \<open>Lemmas\<close>

lemma run_call [simp]: "run_state (call K c) l = (K l c, l @ [(c, K l c)])"
  by (simp add: call_def)

lemma run_call_ignored [simp]: "run_state (call_ignored K c) l = ((), l @ [(c, K l c)])"
  by (simp add: call_ignored_def)

lemma run_check_call:
  "run_state (check_call K c) l =
     (if rc (K l c) = 0 then Inr (out (K l c)) else Inl (Win32 (rc (K l c))), l @ [(c, K l c)])"
  by (simp add: check_call_def check_def)

lemma run_hresult_call:
  "run_state (hresult_call K c) l =
     (if rc (K l c) = 0 then Inr (out (K l c)) else Inl (error_from_hresult (rc (K l c))),
      l @ [(c, K l c)])"
  by (simp add: hresult_call_def)

lemma run_try_bind:
  "run_state (try_bind m f) l =
     (case run_state m l of (Inl e, l') \<Rightarrow> (Inl e, l') | (Inr x, l') \<Rightarrow> run_state (f x) l')"
  by (simp add: try_bind_def split: prod.splits sum.splits)

lemmas ffi_runs = run_check_call run_hresult_call run_try_bind

lemma live_Nil [simp]: "live [] = {#}"
  by (simp add: live_def)

lemma live_append [simp]: "live (l @ m) = fold live_step m (live l)"
  by (simp add: live_def)

section \<open>Guards\<close>

text \<open>
  What a guard type promises: a constructor that succeeds leaves exactly the guard's resources open
  in addition, one that fails leaves nothing behind, and dropping the guard releases exactly them.
  \<open>scoped\<close> is the shape of every use: construct, use, drop at the end of the scope.
\<close>

definition scoped :: "'g result ffi \<Rightarrow> ('g \<Rightarrow> unit ffi) \<Rightarrow> ('g \<Rightarrow> 'b result ffi) \<Rightarrow> 'b result ffi" where
  "scoped new_op drop_op body =
     try_bind new_op (\<lambda>g. do { r \<leftarrow> body g; u \<leftarrow> drop_op g; State_Monad.return r })"

locale raii =
  fixes new_op :: "'g result ffi"
    and drop_op :: "'g \<Rightarrow> unit ffi"
    and held :: "'g \<Rightarrow> resource multiset"
  assumes new_ok: "run_state new_op l = (Inr g, l') \<Longrightarrow> live l' = held g + live l"
    and new_err: "run_state new_op l = (Inl e, l') \<Longrightarrow> live l' = live l"
    and drop_releases: "live_after (drop_op g) l = live l - held g"
begin

lemma scoped_balanced:
  assumes "\<And>g l. live_after (body g) l = live l"
  shows "live_after (scoped new_op drop_op body) l = live l"
proof (cases "run_state new_op l")
  case (Pair r l')
  show ?thesis
  proof (cases r)
    case (Inl e)
    then show ?thesis using new_err [of l e l'] Pair
      by (simp add: live_after_def scoped_def run_try_bind)
  next
    case (Inr g)
    obtain x l2 where b: "run_state (body g) l' = (x, l2)" by fastforce
    have "live l2 = held g + live l"
      using assms [of g l'] new_ok [of l g l'] Pair Inr b by (simp add: live_after_def)
    moreover have "live (snd (run_state (drop_op g) l2)) = live l2 - held g"
      using drop_releases [of g l2] by (simp add: live_after_def)
    ultimately show ?thesis using Pair Inr b
      by (auto simp: live_after_def scoped_def run_try_bind split: prod.splits)
  qed
qed

lemma new_drop_balanced: "live_after (scoped new_op drop_op (\<lambda>g. State_Monad.return (Inr ()))) l = live l"
  by (rule scoped_balanced) (simp add: live_after_def)

end

end
