(* ===== verification/Httpsys_Init.thy ===== *)
theory Httpsys_Init
  imports Httpsys_Ffi
begin

text \<open>
  \<open>crates/httpsys/src/init.rs\<close>: the guards for the library initialisation, the server session and
  the URL group, and the URL prefixes of a group.
\<close>

section \<open>HttpInitializer\<close>

record HttpInitializer =
  initializer_private :: unit

definition http_initializer_new :: "kernel \<Rightarrow> HttpInitializer result ffi" where
  "http_initializer_new K =
     try_bind (check_call K HttpInitialize)
       (\<lambda>_. State_Monad.return (Inr \<lparr>initializer_private = ()\<rparr>))"

definition http_initializer_drop :: "kernel \<Rightarrow> HttpInitializer \<Rightarrow> unit ffi" where
  "http_initializer_drop K g = call_ignored K HttpTerminate"

section \<open>ServerSession\<close>

record ServerSession =
  session_id :: u64

definition server_session_new :: "kernel \<Rightarrow> ServerSession result ffi" where
  "server_session_new K =
     try_bind (check_call K HttpCreateServerSession) (\<lambda>i. State_Monad.return (Inr \<lparr>session_id = i\<rparr>))"

definition server_session_drop :: "kernel \<Rightarrow> ServerSession \<Rightarrow> unit ffi" where
  "server_session_drop K s = call_ignored K (HttpCloseServerSession (session_id s))"

section \<open>UrlGroup\<close>

record UrlGroup =
  group_session :: ServerSession
  group_id :: u64

definition url_group_new :: "kernel \<Rightarrow> ServerSession \<Rightarrow> UrlGroup result ffi" where
  "url_group_new K session =
     try_bind (check_call K (HttpCreateUrlGroup (session_id session)))
       (\<lambda>i. State_Monad.return (Inr \<lparr>group_session = session, group_id = i\<rparr>))"

text \<open>Setting the binding property, the only property the crate sets on a group.\<close>

definition set_property :: "kernel \<Rightarrow> UrlGroup \<Rightarrow> u64 \<Rightarrow> unit result ffi" where
  "set_property K g info =
     try_bind (check_call K (HttpSetUrlGroupProperty (group_id g) info)) (\<lambda>_. State_Monad.return (Inr ()))"

definition bind_to_queue :: "kernel \<Rightarrow> UrlGroup \<Rightarrow> u64 \<Rightarrow> unit result ffi" where
  "bind_to_queue K g queue_handle = set_property K g queue_handle"

definition normalize_prefix :: "string \<Rightarrow> string" where
  "normalize_prefix url = (if url \<noteq> [] \<and> last url = CHR ''/'' then url else url @ ''/'')"

definition add_url :: "kernel \<Rightarrow> UrlGroup \<Rightarrow> string \<Rightarrow> u64 \<Rightarrow> unit result ffi" where
  "add_url K g url ctxt =
     try_bind (check_call K (HttpAddUrlToUrlGroup (group_id g) (normalize_prefix url) ctxt))
       (\<lambda>_. State_Monad.return (Inr ()))"

definition url_group_drop :: "kernel \<Rightarrow> UrlGroup \<Rightarrow> unit ffi" where
  "url_group_drop K g = call_ignored K (HttpCloseUrlGroup (group_id g))"

section \<open>The guards keep the contract\<close>

lemmas init_defs = http_initializer_new_def http_initializer_drop_def server_session_new_def
  server_session_drop_def url_group_new_def url_group_drop_def

interpretation initializer: raii "http_initializer_new K" "http_initializer_drop K" "\<lambda>_. {#RInit#}"
  for K :: kernel
  by unfold_locales (auto simp: init_defs ffi_runs live_step_def live_after_def split: if_splits)

interpretation session: raii "server_session_new K" "server_session_drop K"
  "\<lambda>s. {#RSession (session_id s)#}" for K :: kernel
  by unfold_locales (auto simp: init_defs ffi_runs live_step_def live_after_def split: if_splits)

interpretation url_group: raii "url_group_new K session" "url_group_drop K"
  "\<lambda>g. {#RGroup (group_id g)#}" for K :: kernel and session :: ServerSession
  by unfold_locales (auto simp: init_defs ffi_runs live_step_def live_after_def split: if_splits)

lemma add_url_live [simp]: "live_after (add_url K g url ctxt) l = live l"
  by (simp add: live_after_def add_url_def ffi_runs live_step_def)

lemma bind_to_queue_live [simp]: "live_after (bind_to_queue K g q) l = live l"
  by (simp add: live_after_def bind_to_queue_def set_property_def ffi_runs live_step_def)

lemma normalize_prefix_ends: "last (normalize_prefix url) = CHR ''/''"
  by (simp add: normalize_prefix_def)

section \<open>Properties\<close>

text \<open>
  nested guards balance.  A scope that initialises the library, opens a session and a URL group
  in it, registers a prefix and leaves the scope (each guard dropped in reverse order)
  ends with exactly the resources it began with open, whichever of its calls the kernel refuses.
\<close>

lemma init_guards_balanced:
  "live_after
     (scoped (http_initializer_new K) (http_initializer_drop K) (\<lambda>i.
        scoped (server_session_new K) (server_session_drop K) (\<lambda>s.
          scoped (url_group_new K s) (url_group_drop K) (\<lambda>g. add_url K g url ctxt)))) l = live l"
  by (intro initializer.scoped_balanced session.scoped_balanced url_group.scoped_balanced) simp

text \<open>
  The prefix passed to http.sys.  \<open>add_url\<close> makes one call, with the caller's prefix unchanged
  up to one appended \<open>/\<close>, which is there exactly when the caller left it out; normalising twice
  changes nothing more; and the result is the status of that call.
\<close>

lemma add_url_normalises:
  "\<exists>p. p = normalize_prefix url \<and> last p = CHR ''/'' \<and> normalize_prefix p = p \<and>
     (p = url \<or> p = url @ ''/'' \<and> \<not> (\<exists>u. url = u @ ''/'')) \<and>
     snd (run_state (add_url K g url ctxt) l) =
       l @ [(HttpAddUrlToUrlGroup (group_id g) p ctxt, K l (HttpAddUrlToUrlGroup (group_id g) p ctxt))] \<and>
     fst (run_state (add_url K g url ctxt) l) =
       check (rc (K l (HttpAddUrlToUrlGroup (group_id g) p ctxt)))"
  by (auto simp: add_url_def ffi_runs check_def normalize_prefix_def)

end
