(* ===== verification/Object_Pool.thy ===== *)
theory Object_Pool
  imports Httpsys_Prelude
begin

text \<open>
  The free lists.  All three pools of the crate (\<open>BufferPool\<close>, \<open>BodyPool\<close>, \<open>OpPool\<close>) keep their
  objects in a \<open>crossbeam_queue::ArrayQueue\<close>, which is not part of this repository: it is a
  parameter, an object that carries its operations.  \<open>aq_ok\<close> is its documented behaviour, a
  bounded first-in first-out queue.  The locale \<open>recycler\<close> is what the three pools promise their
  users; each pool's theory interprets it on its own operations.
\<close>

section \<open>The bounded queue the pools are built on\<close>

record ('a, 'q) array_queue =
  aq_state :: 'q
  aq_push_op :: "'a \<Rightarrow> 'q \<Rightarrow> 'q option"
  aq_pop_op :: "'q \<Rightarrow> ('a \<times> 'q) option"
  aq_contents :: "'q \<Rightarrow> 'a list"
  aq_bound :: "'q \<Rightarrow> nat"

text \<open>\<open>push\<close> as every call site uses it, \<open>let _ = free.push(x)\<close>: a full queue refuses the element
  and the caller lets it go.\<close>

definition aq_push :: "'a \<Rightarrow> ('a, 'q) array_queue \<Rightarrow> ('a, 'q) array_queue" where
  "aq_push x Q = (case aq_push_op Q x (aq_state Q) of None \<Rightarrow> Q | Some q \<Rightarrow> Q\<lparr>aq_state := q\<rparr>)"

definition aq_pop :: "('a, 'q) array_queue \<Rightarrow> 'a option \<times> ('a, 'q) array_queue" where
  "aq_pop Q =
     (case aq_pop_op Q (aq_state Q) of None \<Rightarrow> (None, Q) | Some (x, q) \<Rightarrow> (Some x, Q\<lparr>aq_state := q\<rparr>))"

text \<open>What can be observed of a queue: its elements, oldest first, and its fixed capacity.\<close>

definition aq_items :: "('a, 'q) array_queue \<Rightarrow> 'a list" where
  "aq_items Q = aq_contents Q (aq_state Q)"

definition aq_cap :: "('a, 'q) array_queue \<Rightarrow> nat" where
  "aq_cap Q = aq_bound Q (aq_state Q)"

definition aq_push_law :: "('a, 'q) array_queue \<Rightarrow> 'a \<Rightarrow> 'q \<Rightarrow> bool" where
  "aq_push_law Q x q \<longleftrightarrow>
     (case aq_push_op Q x q of
        None \<Rightarrow> aq_bound Q q \<le> length (aq_contents Q q)
      | Some q' \<Rightarrow> length (aq_contents Q q) < aq_bound Q q \<and>
          aq_contents Q q' = aq_contents Q q @ [x] \<and> aq_bound Q q' = aq_bound Q q)"

definition aq_pop_law :: "('a, 'q) array_queue \<Rightarrow> 'q \<Rightarrow> bool" where
  "aq_pop_law Q q \<longleftrightarrow>
     (case aq_pop_op Q q of
        None \<Rightarrow> aq_contents Q q = []
      | Some (x, q') \<Rightarrow> aq_contents Q q = x # aq_contents Q q' \<and> aq_bound Q q' = aq_bound Q q)"

definition aq_ok :: "('a, 'q) array_queue \<Rightarrow> bool" where
  "aq_ok Q \<longleftrightarrow>
     (\<forall>x q. aq_push_law Q x q) \<and> (\<forall>q. aq_pop_law Q q) \<and> length (aq_items Q) \<le> aq_cap Q"

text \<open>\<open>ArrayQueue::new(n)\<close>, for the positive \<open>n\<close> every call site guarantees.\<close>

definition aq_new_ok :: "(nat \<Rightarrow> ('a, 'q) array_queue) \<Rightarrow> bool" where
  "aq_new_ok new \<longleftrightarrow> (\<forall>n. 0 < n \<longrightarrow> aq_ok (new n) \<and> aq_items (new n) = [] \<and> aq_cap (new n) = n)"

text \<open>A concrete queue with that behaviour, which the witnesses run on.\<close>

definition list_queue_new :: "nat \<Rightarrow> ('a, 'a list \<times> nat) array_queue" where
  "list_queue_new n =
     \<lparr>aq_state = ([], n),
      aq_push_op = (\<lambda>x (xs, n). if length xs < n then Some (xs @ [x], n) else None),
      aq_pop_op = (\<lambda>(xs, n). case xs of [] \<Rightarrow> None | x # xs' \<Rightarrow> Some (x, (xs', n))),
      aq_contents = fst, aq_bound = snd\<rparr>"

section \<open>Laws of the queue\<close>

lemma list_queue_new_ok [simp]: "aq_new_ok list_queue_new"
  by (auto simp: aq_new_ok_def aq_ok_def aq_push_law_def aq_pop_law_def aq_items_def aq_cap_def
      list_queue_new_def split: option.splits list.splits)

lemma aq_items_push:
  assumes "aq_ok Q"
  shows "aq_items (aq_push x Q) =
    (if length (aq_items Q) < aq_cap Q then aq_items Q @ [x] else aq_items Q)"
proof -
  have "aq_push_law Q x (aq_state Q)" using assms by (simp add: aq_ok_def)
  then show ?thesis
    by (auto simp: aq_push_law_def aq_push_def aq_items_def aq_cap_def split: option.splits)
qed

lemma aq_cap_push: "aq_ok Q \<Longrightarrow> aq_cap (aq_push x Q) = aq_cap Q"
proof -
  assume "aq_ok Q"
  then have "aq_push_law Q x (aq_state Q)" by (simp add: aq_ok_def)
  then show ?thesis
    by (auto simp: aq_push_law_def aq_push_def aq_cap_def split: option.splits)
qed

lemma aq_pop_items:
  assumes "aq_ok Q" and "aq_pop Q = (r, Q')"
  shows "aq_cap Q' = aq_cap Q"
    and "r = None \<Longrightarrow> aq_items Q = [] \<and> Q' = Q"
    and "r = Some x \<Longrightarrow> aq_items Q = x # aq_items Q'"
proof -
  have law: "aq_pop_law Q (aq_state Q)" using assms(1) by (simp add: aq_ok_def)
  show "aq_cap Q' = aq_cap Q"
    using law assms(2)
    by (auto simp: aq_pop_law_def aq_pop_def aq_cap_def split: option.splits)
  show "r = None \<Longrightarrow> aq_items Q = [] \<and> Q' = Q"
    using law assms(2)
    by (auto simp: aq_pop_law_def aq_pop_def aq_items_def split: option.splits)
  show "r = Some x \<Longrightarrow> aq_items Q = x # aq_items Q'"
    using law assms(2)
    by (auto simp: aq_pop_law_def aq_pop_def aq_items_def split: option.splits)
qed

lemma aq_ok_state:
  assumes "aq_ok Q" and "length (aq_items (Q\<lparr>aq_state := q\<rparr>)) \<le> aq_cap (Q\<lparr>aq_state := q\<rparr>)"
  shows "aq_ok (Q\<lparr>aq_state := q\<rparr>)"
  using assms
  by (simp add: aq_ok_def aq_push_law_def aq_pop_law_def aq_items_def aq_cap_def
      cong: option.case_cong)

lemma aq_ok_push [simp]:
  assumes ok: "aq_ok Q"
  shows "aq_ok (aq_push x Q)"
proof (cases "aq_push_op Q x (aq_state Q)")
  case None
  with ok show ?thesis by (simp add: aq_push_def)
next
  case (Some q)
  have "length (aq_items (aq_push x Q)) \<le> aq_cap (aq_push x Q)"
    using ok by (auto simp: aq_items_push aq_cap_push aq_ok_def)
  with Some show ?thesis using aq_ok_state [OF ok, of q] by (simp add: aq_push_def)
qed

lemma aq_ok_pop:
  assumes ok: "aq_ok Q" and pop: "aq_pop Q = (r, Q')"
  shows "aq_ok Q'"
proof (cases r)
  case None
  with aq_pop_items(2) [OF ok pop] ok show ?thesis by simp
next
  case (Some x)
  then obtain q where Q': "Q' = Q\<lparr>aq_state := q\<rparr>"
    using pop by (auto simp: aq_pop_def split: option.splits)
  have "length (aq_items Q') \<le> aq_cap Q'"
    using aq_pop_items(1) [OF ok pop] aq_pop_items(3) [OF ok pop Some] ok
    by (simp add: aq_ok_def)
  with Q' aq_ok_state [OF ok, of q] show ?thesis by simp
qed

lemmas aq_laws = aq_items_push aq_cap_push aq_ok_push aq_ok_pop aq_pop_items
declare aq_laws [pool_laws]

section \<open>What a pool promises\<close>

text \<open>
  A client of a pool only takes objects (saying what it needs, \<open>'r\<close>) and lets them go again.
  \<open>pool_run\<close> runs any such sequence and collects the objects handed out.
\<close>

datatype ('r, 'o) pool_op = Take 'r | Put 'o

fun pool_run :: "('r \<Rightarrow> 'p \<Rightarrow> 'o \<times> 'p) \<Rightarrow> ('o \<Rightarrow> 'p \<Rightarrow> 'p) \<Rightarrow> ('r, 'o) pool_op list \<Rightarrow> 'p \<Rightarrow> 'o list \<times> 'p"
where
  "pool_run tk put [] p = ([], p)"
| "pool_run tk put (Take r # ops) p =
     (let (x, p1) = tk r p; (xs, p2) = pool_run tk put ops p1 in (x # xs, p2))"
| "pool_run tk put (Put x # ops) p = pool_run tk put ops (put x p)"

locale recycler =
  fixes inv :: "'p \<Rightarrow> bool"
    and stock :: "'p \<Rightarrow> 's list"
    and bound :: "'p \<Rightarrow> nat"
    and take_op :: "'r \<Rightarrow> 'p \<Rightarrow> 'o \<times> 'p"
    and put_op :: "'o \<Rightarrow> 'p \<Rightarrow> 'p"
    and ready :: "'o \<Rightarrow> bool"
    and returnable :: "'o \<Rightarrow> bool"
  assumes stock_bound: "inv p \<Longrightarrow> length (stock p) \<le> bound p"
    and take_keeps: "inv p \<Longrightarrow> take_op r p = (x, p') \<Longrightarrow> inv p' \<and> bound p' = bound p"
    and take_ready: "inv p \<Longrightarrow> take_op r p = (x, p') \<Longrightarrow> ready x"
    and put_keeps: "inv p \<Longrightarrow> returnable x \<Longrightarrow> inv (put_op x p) \<and> bound (put_op x p) = bound p"
begin

lemma run_keeps:
  assumes "inv p" and "\<And>x. Put x \<in> set ops \<Longrightarrow> returnable x"
    and "pool_run take_op put_op ops p = (xs, p')"
  shows "inv p' \<and> bound p' = bound p \<and> (\<forall>x \<in> set xs. ready x)"
  using assms
proof (induction ops arbitrary: p xs)
  case Nil
  then show ?case by simp
next
  case (Cons op ops)
  show ?case
  proof (cases op)
    case (Take r)
    obtain x p1 where t: "take_op r p = (x, p1)" by fastforce
    obtain ys p2 where run: "pool_run take_op put_op ops p1 = (ys, p2)" by fastforce
    have eqs: "xs = x # ys" "p' = p2" using Cons.prems(3) Take t run by auto
    have "inv p1" and b: "bound p1 = bound p" using take_keeps [OF Cons.prems(1) t] by auto
    then have "inv p2 \<and> bound p2 = bound p1 \<and> (\<forall>x \<in> set ys. ready x)"
      using Cons.IH [of p1 ys] Cons.prems(2) run eqs(2) by simp
    with eqs b take_ready [OF Cons.prems(1) t] show ?thesis by simp
  next
    case (Put y)
    with Cons.prems put_keeps [OF Cons.prems(1), of y]
    show ?thesis using Cons.IH [of "put_op y p" xs] by auto
  qed
qed

lemma run_stock:
  assumes "inv p" and "\<And>x. Put x \<in> set ops \<Longrightarrow> returnable x"
    and "pool_run take_op put_op ops p = (xs, p')"
  shows "length (stock p') \<le> bound p"
  using run_keeps [OF assms] stock_bound [of p'] by simp

end

end
