(* ===== verification/Httpsys_Overlapped.thy ===== *)
theory Httpsys_Overlapped
  imports Httpsys_Error Object_Pool
begin

text \<open>
  The overlapped-operation plumbing of \<open>crates/httpsys/src/overlapped.rs\<close>.

  First the operations one by one, as functions on an \<open>OverlappedWrap\<close>.  Then the whole life of an
  operation as a machine of small atomic steps, in which three parties interleave freely: the task
  that submits and awaits the operation, the kernel, and a completion thread.  A step is one access
  to shared memory: a store, a load, a change of the strong count.  The relaxed stores of
  \<open>complete\<close> may become visible in either order and late; the release store of \<open>completed\<close> becomes
  visible only after every earlier store of that thread, which is what \<open>Ordering::Release\<close> promises.

  Parameters (\<open>ov_env\<close>): the \<open>AtomicWaker\<close> of the \<open>atomic-waker\<close> crate and the kernel call
  \<open>GetOverlappedResult\<close>.  The kernel itself is the environment: its steps are guarded by what its
  contract with the code allows (at most one packet per accepted submission, none for a refused one
  or for an inline success when packets are suppressed).
\<close>

definition ERROR_IO_PENDING :: u32 where
  "ERROR_IO_PENDING = 997"

section \<open>Parameters\<close>

record 'w ov_env =
  wk_new :: 'w
  wk_register :: "'w \<Rightarrow> 'w"
  wk_wake :: "'w \<Rightarrow> bool \<times> 'w"
  get_overlapped_result :: "u32 \<Rightarrow> u32 option"

text \<open>What \<open>AtomicWaker\<close> documents: \<open>wake\<close> wakes the task of the last \<open>register\<close>.
  \<open>get_overlapped_result\<close> maps the status the kernel recorded to success (\<open>None\<close>) or an \<open>HRESULT\<close>.\<close>

definition waker_ok :: "'w ov_env \<Rightarrow> bool" where
  "waker_ok W \<longleftrightarrow> (\<forall>w. fst (wk_wake W (wk_register W w)))"

section \<open>The operations\<close>

record 'w OverlappedWrap =
  ov_inner :: u32
  ov_bytes :: u32
  ov_completed :: bool
  ov_waker :: 'w
  ov_err :: u32
  ov_len :: u32

definition wrap_new :: "'w ov_env \<Rightarrow> 'w OverlappedWrap" where
  "wrap_new W = \<lparr>ov_inner = 0, ov_bytes = 0, ov_completed = False, ov_waker = wk_new W,
     ov_err = 0, ov_len = 0\<rparr>"

text \<open>\<open>complete\<close>, with whether it woke a task.\<close>

definition complete :: "'w ov_env \<Rightarrow> u32 \<Rightarrow> u32 \<Rightarrow> 'w OverlappedWrap \<Rightarrow> bool \<times> 'w OverlappedWrap" where
  "complete W win32_err bytes_done w =
     (let w1 = w\<lparr>ov_err := win32_err\<rparr>;
          w2 = w1\<lparr>ov_len := bytes_done\<rparr>;
          w3 = w2\<lparr>ov_completed := True\<rparr>
      in case wk_wake W (ov_waker w3) of (woken, k) \<Rightarrow> (woken, w3\<lparr>ov_waker := k\<rparr>))"

definition is_completed :: "'w OverlappedWrap \<Rightarrow> bool" where
  "is_completed w = ov_completed w"

definition wrap_result :: "'w OverlappedWrap \<Rightarrow> u32 result" where
  "wrap_result w = (if ov_err w = 0 then Inr (ov_len w) else Inl (Win32 (ov_err w)))"

datatype 'a poll = Ready 'a | Pending

text \<open>\<open>poll_complete\<close> run without interference; \<open>again\<close> is what the second load of \<open>completed\<close> sees.\<close>

definition poll_complete ::
  "'w ov_env \<Rightarrow> 'w OverlappedWrap \<Rightarrow> ('w OverlappedWrap \<Rightarrow> 'w OverlappedWrap) \<Rightarrow>
   u32 result poll \<times> 'w OverlappedWrap" where
  "poll_complete W w again =
     (if is_completed w then (Ready (wrap_result w), w)
      else let w' = again (w\<lparr>ov_waker := wk_register W (ov_waker w)\<rparr>) in
        if is_completed w' then (Ready (wrap_result w'), w') else (Pending, w'))"

definition wrap_reset :: "'w ov_env \<Rightarrow> 'w OverlappedWrap \<Rightarrow> 'w OverlappedWrap" where
  "wrap_reset W w = w\<lparr>ov_inner := 0, ov_bytes := 0, ov_completed := False, ov_waker := wk_new W,
     ov_err := 0, ov_len := 0\<rparr>"

text \<open>The status \<open>deliver_completion\<close> stores: zero on success, else the Win32 code behind the
  \<open>HRESULT\<close>.\<close>

definition deliver_status :: "'w ov_env \<Rightarrow> u32 \<Rightarrow> u32" where
  "deliver_status W status =
     (case get_overlapped_result W status of
        None \<Rightarrow> 0
      | Some hr \<Rightarrow> (case win32_code (error_from_hresult hr) of Some c \<Rightarrow> c | None \<Rightarrow> 0))"

definition deliver_completion :: "'w ov_env \<Rightarrow> u32 \<Rightarrow> 'w OverlappedWrap \<Rightarrow> bool \<times> 'w OverlappedWrap" where
  "deliver_completion W transferred w = complete W (deliver_status W (ov_inner w)) transferred w"

text \<open>What the kernel did with one submission: the status the call returned, the byte count it left
  in the out-parameter, and, for a queued operation, the status and byte count of its packet.\<close>

record submission =
  sub_ec :: u32
  sub_bytes :: u32
  sub_status :: u32
  sub_len :: u32

text \<open>\<open>Op::finish\<close> as a function of that.\<close>

definition op_finish :: "'w ov_env \<Rightarrow> bool \<Rightarrow> submission \<Rightarrow> u32 result" where
  "op_finish W skip s =
     (if sub_ec s = 0 \<and> skip then Inr (sub_bytes s)
      else if sub_ec s = 0 \<or> sub_ec s = ERROR_IO_PENDING then
        (let e = deliver_status W (sub_status s) in if e = 0 then Inr (sub_len s) else Inl (Win32 e))
      else Inl (Win32 (sub_ec s)))"

section \<open>The operation pool\<close>

text \<open>An \<open>Arc<OverlappedWrap>\<close>: the wrap and its strong count.\<close>

record 'w arc =
  strong :: nat
  wrap :: "'w OverlappedWrap"

definition arc_clone :: "'w arc \<Rightarrow> 'w arc" where
  "arc_clone c = c\<lparr>strong := strong c + 1\<rparr>"

text \<open>Dropping a handle; the last one frees the wrap.\<close>

definition arc_drop :: "'w arc \<Rightarrow> 'w arc option" where
  "arc_drop c = (if strong c \<le> 1 then None else Some (c\<lparr>strong := strong c - 1\<rparr>))"

definition arc_get_mut :: "'w arc \<Rightarrow> bool" where
  "arc_get_mut c \<longleftrightarrow> strong c = 1"

type_synonym ('w, 'q) OpPool = "('w arc, 'q) array_queue"

definition op_pool_new :: "(nat \<Rightarrow> ('w, 'q) OpPool) \<Rightarrow> nat \<Rightarrow> ('w, 'q) OpPool" where
  "op_pool_new new_queue slots = new_queue (max slots 1)"

definition op_pool_take :: "'w ov_env \<Rightarrow> ('w, 'q) OpPool \<Rightarrow> 'w arc \<times> ('w, 'q) OpPool" where
  "op_pool_take W pool =
     (case aq_pop pool of
        (popped, pool') \<Rightarrow>
          (case popped of Some c \<Rightarrow> c | None \<Rightarrow> \<lparr>strong = 1, wrap = wrap_new W\<rparr>, pool'))"

definition op_pool_give_back :: "'w ov_env \<Rightarrow> 'w arc \<Rightarrow> ('w, 'q) OpPool \<Rightarrow> ('w, 'q) OpPool" where
  "op_pool_give_back W c pool =
     (if \<not> arc_get_mut c then pool else aq_push (c\<lparr>wrap := wrap_reset W (wrap c)\<rparr>) pool)"

section \<open>One operation, interleaved\<close>

text \<open>
  Where the task is: the wrap is in the free list; the call is outstanding; it returned and
  \<open>finish\<close> runs; the three accesses of \<open>poll_complete\<close>; suspended; about to read the result; the
  future's \<open>drop\<close> (first check, spinning, done); about to \<open>give_back\<close> with a result; no task.
\<close>

datatype task_pc =
    TNone | TPooled | TSubmitted | TReturned
  | TPoll1 | TRegister | TPoll2 | TParked | TReady
  | TDropCheck | TSpin | TDropDone
  | TGiveBack "u32 result"

text \<open>
  Where the reference handed to the kernel is: with nobody; with the kernel, the call undecided;
  with the kernel, the call decided synchronously; queued; in a packet; with a completion thread,
  which stores \<open>err\<close> and \<open>len\<close> (one flag each for visible), sets \<open>completed\<close>, wakes, and lets go.
\<close>

datatype kern_pc =
    KNone | KOwned | KInline | KQueued | KPosted
  | KDeliver u32 u32 bool bool | KWake u32 u32 | KDropRef u32 u32 | KDone u32 u32

record 'w op_state =
  task :: task_pc
  kern :: kern_pc
  notified :: bool
  cell :: "'w arc option"
  sub :: submission

datatype op_action =
    KernelAccept | KernelPost u32 u32 | CallReturns u32 u32
  | Reclaim | StartAwait | PollLoad1 | PollRegister | PollLoad2 | Repoll | ReadResult
  | CancelFuture | DropCheck | Spin | DropHandles
  | Dequeue | StoreErr | StoreLen | StoreCompleted | Wake | DropRef

text \<open>A step is disabled, or touches a freed wrap, or leads to a next state.\<close>

datatype 'a outcome = Disabled | Fault | Next 'a

definition on_cell :: "bool \<Rightarrow> 'w op_state \<Rightarrow> ('w arc \<Rightarrow> 'w op_state) \<Rightarrow> 'w op_state outcome" where
  "on_cell guard s f =
     (if guard then (case cell s of None \<Rightarrow> Fault | Some c \<Rightarrow> Next (f c)) else Disabled)"

definition upd_wrap :: "('w OverlappedWrap \<Rightarrow> 'w OverlappedWrap) \<Rightarrow> 'w arc \<Rightarrow> 'w arc option" where
  "upd_wrap f c = Some (c\<lparr>wrap := f (wrap c)\<rparr>)"

text \<open>The synchronous branches of \<open>finish\<close>: an inline success whose packet is suppressed, and a
  refusal.\<close>

definition sync_ec :: "bool \<Rightarrow> u32 \<Rightarrow> bool" where
  "sync_ec skip ec \<longleftrightarrow> (if ec = 0 then skip else ec \<noteq> ERROR_IO_PENDING)"

text \<open>The kernel may only report a synchronous outcome for an operation it has not queued, and a
  pending one for an operation it has.\<close>

definition may_return :: "bool \<Rightarrow> u32 \<Rightarrow> kern_pc \<Rightarrow> bool" where
  "may_return skip ec k \<longleftrightarrow> (if sync_ec skip ec then k = KOwned else k \<noteq> KOwned)"

fun op_act :: "'w ov_env \<Rightarrow> bool \<Rightarrow> op_action \<Rightarrow> 'w op_state \<Rightarrow> 'w op_state outcome" where
  "op_act W skip KernelAccept s =
     on_cell (task s = TSubmitted \<and> kern s = KOwned) s (\<lambda>c. s\<lparr>kern := KQueued\<rparr>)"
| "op_act W skip (KernelPost status n) s =
     on_cell (kern s = KQueued) s
       (\<lambda>c. s\<lparr>kern := KPosted, cell := upd_wrap (\<lambda>w. w\<lparr>ov_inner := status\<rparr>) c,
              sub := (sub s)\<lparr>sub_status := status, sub_len := n\<rparr>\<rparr>)"
| "op_act W skip (CallReturns ec b) s =
     on_cell (task s = TSubmitted \<and> may_return skip ec (kern s)) s
       (\<lambda>c. s\<lparr>task := TReturned, kern := (if sync_ec skip ec then KInline else kern s),
              cell := upd_wrap (\<lambda>w. w\<lparr>ov_bytes := b\<rparr>) c,
              sub := (sub s)\<lparr>sub_ec := ec, sub_bytes := b\<rparr>\<rparr>)"
| "op_act W skip Reclaim s =
     on_cell (task s = TReturned \<and> sync_ec skip (sub_ec (sub s))) s
       (\<lambda>c. s\<lparr>task := TGiveBack (if sub_ec (sub s) = 0 then Inr (ov_bytes (wrap c))
                                else Inl (Win32 (sub_ec (sub s)))),
              kern := KNone, cell := arc_drop c\<rparr>)"
| "op_act W skip StartAwait s =
     on_cell (task s = TReturned \<and> \<not> sync_ec skip (sub_ec (sub s))) s
       (\<lambda>c. s\<lparr>task := TPoll1, cell := Some (arc_clone c)\<rparr>)"
| "op_act W skip PollLoad1 s =
     on_cell (task s = TPoll1) s
       (\<lambda>c. s\<lparr>task := (if is_completed (wrap c) then TReady else TRegister)\<rparr>)"
| "op_act W skip PollRegister s =
     on_cell (task s = TRegister) s
       (\<lambda>c. s\<lparr>task := TPoll2, cell := upd_wrap (\<lambda>w. w\<lparr>ov_waker := wk_register W (ov_waker w)\<rparr>) c\<rparr>)"
| "op_act W skip PollLoad2 s =
     on_cell (task s = TPoll2) s
       (\<lambda>c. s\<lparr>task := (if is_completed (wrap c) then TReady else TParked)\<rparr>)"
| "op_act W skip Repoll s =
     on_cell (task s = TParked) s (\<lambda>c. s\<lparr>task := TPoll1, notified := False\<rparr>)"
| "op_act W skip ReadResult s =
     on_cell (task s = TReady) s (\<lambda>c. s\<lparr>task := TGiveBack (wrap_result (wrap c)), cell := arc_drop c\<rparr>)"
| "op_act W skip CancelFuture s =
     on_cell (task s = TParked) s (\<lambda>c. s\<lparr>task := TDropCheck\<rparr>)"
| "op_act W skip DropCheck s =
     on_cell (task s = TDropCheck) s
       (\<lambda>c. s\<lparr>task := (if is_completed (wrap c) then TDropDone else TSpin)\<rparr>)"
| "op_act W skip Spin s =
     on_cell (task s = TSpin) s (\<lambda>c. s\<lparr>task := (if is_completed (wrap c) then TDropDone else TSpin)\<rparr>)"
| "op_act W skip DropHandles s =
     on_cell (task s = TDropDone) s
       (\<lambda>c. s\<lparr>task := TNone, cell := Option.bind (arc_drop c) arc_drop\<rparr>)"
| "op_act W skip Dequeue s =
     on_cell (kern s = KPosted) s
       (\<lambda>c. s\<lparr>kern := KDeliver (deliver_status W (ov_inner (wrap c))) (sub_len (sub s)) False False\<rparr>)"
| "op_act W skip StoreErr s =
     (case kern s of
        KDeliver e n False fl \<Rightarrow>
          on_cell True s (\<lambda>c. s\<lparr>kern := KDeliver e n True fl, cell := upd_wrap (\<lambda>w. w\<lparr>ov_err := e\<rparr>) c\<rparr>)
      | _ \<Rightarrow> Disabled)"
| "op_act W skip StoreLen s =
     (case kern s of
        KDeliver e n fe False \<Rightarrow>
          on_cell True s (\<lambda>c. s\<lparr>kern := KDeliver e n fe True, cell := upd_wrap (\<lambda>w. w\<lparr>ov_len := n\<rparr>) c\<rparr>)
      | _ \<Rightarrow> Disabled)"
| "op_act W skip StoreCompleted s =
     (case kern s of
        KDeliver e n True True \<Rightarrow>
          on_cell True s (\<lambda>c. s\<lparr>kern := KWake e n, cell := upd_wrap (\<lambda>w. w\<lparr>ov_completed := True\<rparr>) c\<rparr>)
      | _ \<Rightarrow> Disabled)"
| "op_act W skip Wake s =
     (case kern s of
        KWake e n \<Rightarrow>
          on_cell True s
            (\<lambda>c. s\<lparr>kern := KDropRef e n, notified := notified s \<or> fst (wk_wake W (ov_waker (wrap c))),
                   cell := upd_wrap (\<lambda>w. w\<lparr>ov_waker := snd (wk_wake W (ov_waker w))\<rparr>) c\<rparr>)
      | _ \<Rightarrow> Disabled)"
| "op_act W skip DropRef s =
     (case kern s of
        KDropRef e n \<Rightarrow> on_cell True s (\<lambda>c. s\<lparr>kern := KDone e n, cell := arc_drop c\<rparr>)
      | _ \<Rightarrow> Disabled)"

section \<open>The invariant of one operation\<close>

text \<open>How many strong references each side holds.\<close>

fun task_refs :: "task_pc \<Rightarrow> nat" where
  "task_refs TNone = 0"
| "task_refs TPooled = 1"
| "task_refs TSubmitted = 1"
| "task_refs TReturned = 1"
| "task_refs (TGiveBack r) = 1"
| "task_refs _ = 2"

fun kern_refs :: "kern_pc \<Rightarrow> nat" where
  "kern_refs KNone = 0"
| "kern_refs (KDone e n) = 0"
| "kern_refs _ = 1"

definition op_refs :: "'w op_state \<Rightarrow> nat" where
  "op_refs s = task_refs (task s) + kern_refs (kern s)"

text \<open>The kernel has the operation: it may still write to the caller's memory.\<close>

fun kernel_holds :: "kern_pc \<Rightarrow> bool" where
  "kernel_holds KOwned = True"
| "kernel_holds KQueued = True"
| "kernel_holds _ = False"

fun finished :: "kern_pc \<Rightarrow> bool" where
  "finished (KWake e n) = True"
| "finished (KDropRef e n) = True"
| "finished (KDone e n) = True"
| "finished _ = False"

fun accepted :: "kern_pc \<Rightarrow> bool" where
  "accepted KNone = False"
| "accepted KOwned = False"
| "accepted KInline = False"
| "accepted _ = True"

text \<open>The strong count is exactly the number of holders, and a wrap without holders is freed.\<close>

definition count_inv :: "'w op_state \<Rightarrow> bool" where
  "count_inv s \<longleftrightarrow>
     (case cell s of None \<Rightarrow> op_refs s = 0 | Some c \<Rightarrow> strong c = op_refs s \<and> 0 < op_refs s)"

text \<open>What is visible in the wrap, given how far the completion has come.\<close>

fun visible_inv :: "'w ov_env \<Rightarrow> submission \<Rightarrow> kern_pc \<Rightarrow> 'w OverlappedWrap \<Rightarrow> bool" where
  "visible_inv W sb (KDeliver e n fe fl) w \<longleftrightarrow>
     \<not> ov_completed w \<and> (fe \<longrightarrow> ov_err w = e) \<and> (fl \<longrightarrow> ov_len w = n) \<and>
     e = deliver_status W (sub_status sb) \<and> n = sub_len sb"
| "visible_inv W sb (KWake e n) w \<longleftrightarrow>
     ov_completed w \<and> ov_err w = e \<and> ov_len w = n \<and>
     e = deliver_status W (sub_status sb) \<and> n = sub_len sb"
| "visible_inv W sb (KDropRef e n) w \<longleftrightarrow>
     ov_completed w \<and> ov_err w = e \<and> ov_len w = n \<and>
     e = deliver_status W (sub_status sb) \<and> n = sub_len sb"
| "visible_inv W sb (KDone e n) w \<longleftrightarrow>
     ov_completed w \<and> ov_err w = e \<and> ov_len w = n \<and>
     e = deliver_status W (sub_status sb) \<and> n = sub_len sb"
| "visible_inv W sb KPosted w \<longleftrightarrow> \<not> ov_completed w \<and> ov_inner w = sub_status sb"
| "visible_inv W sb _ w \<longleftrightarrow> \<not> ov_completed w"

text \<open>Which combinations of the two sides occur.\<close>

fun pair_inv :: "'w ov_env \<Rightarrow> bool \<Rightarrow> submission \<Rightarrow> task_pc \<Rightarrow> kern_pc \<Rightarrow> bool" where
  "pair_inv W skip sb TNone k \<longleftrightarrow> k = KNone \<or> finished k"
| "pair_inv W skip sb TPooled k \<longleftrightarrow> k = KNone"
| "pair_inv W skip sb TSubmitted k \<longleftrightarrow> k = KOwned \<or> accepted k"
| "pair_inv W skip sb TReturned k \<longleftrightarrow> (if sync_ec skip (sub_ec sb) then k = KInline else accepted k)"
| "pair_inv W skip sb TReady k \<longleftrightarrow> finished k \<and> \<not> sync_ec skip (sub_ec sb)"
| "pair_inv W skip sb TDropDone k \<longleftrightarrow> finished k \<and> \<not> sync_ec skip (sub_ec sb)"
| "pair_inv W skip sb (TGiveBack r) k \<longleftrightarrow>
     r = op_finish W skip sb \<and> (if sync_ec skip (sub_ec sb) then k = KNone else finished k)"
| "pair_inv W skip sb _ k \<longleftrightarrow> accepted k \<and> \<not> sync_ec skip (sub_ec sb)"

text \<open>A task that is about to suspend, or has suspended, will be woken or has been notified.\<close>

fun woken :: "kern_pc \<Rightarrow> bool" where
  "woken (KDropRef e n) = True"
| "woken (KDone e n) = True"
| "woken _ = False"

definition wake_inv :: "'w ov_env \<Rightarrow> bool \<Rightarrow> task_pc \<Rightarrow> kern_pc \<Rightarrow> 'w OverlappedWrap \<Rightarrow> bool" where
  "wake_inv W notif t k w \<longleftrightarrow>
     (t \<in> {TPoll2, TParked} \<and> \<not> woken k \<longrightarrow> fst (wk_wake W (ov_waker w))) \<and>
     (t = TParked \<and> woken k \<longrightarrow> notif)"

definition wrap_inv :: "'w ov_env \<Rightarrow> bool \<Rightarrow> 'w op_state \<Rightarrow> 'w OverlappedWrap \<Rightarrow> bool" where
  "wrap_inv W skip s w \<longleftrightarrow>
     visible_inv W (sub s) (kern s) w \<and> wake_inv W (notified s) (task s) (kern s) w \<and>
     (task s = TPooled \<longrightarrow> w = wrap_new W) \<and>
     (task s = TReturned \<longrightarrow> ov_bytes w = sub_bytes (sub s))"

definition op_inv :: "'w ov_env \<Rightarrow> bool \<Rightarrow> 'w op_state \<Rightarrow> bool" where
  "op_inv W skip s \<longleftrightarrow>
     count_inv s \<and> pair_inv W skip (sub s) (task s) (kern s) \<and>
     (case cell s of None \<Rightarrow> True | Some c \<Rightarrow> wrap_inv W skip s (wrap c))"

section \<open>The invariant is kept\<close>

lemmas op_inv_defs = op_inv_def count_inv_def op_refs_def wrap_inv_def

lemma op_finish_sync:
  "sync_ec skip (sub_ec sb) \<Longrightarrow>
     op_finish W skip sb = (if sub_ec sb = 0 then Inr (sub_bytes sb) else Inl (Win32 (sub_ec sb)))"
  by (auto simp: op_finish_def sync_ec_def split: if_splits)

lemma op_finish_async:
  "\<not> sync_ec skip (sub_ec sb) \<Longrightarrow>
     op_finish W skip sb =
       (if deliver_status W (sub_status sb) = 0 then Inr (sub_len sb)
        else Inl (Win32 (deliver_status W (sub_status sb))))"
  by (auto simp: op_finish_def sync_ec_def Let_def split: if_splits)

lemma finished_accepted: "finished k \<Longrightarrow> accepted k"
  by (cases k) auto

lemma woken_finished: "woken k \<Longrightarrow> finished k"
  by (cases k) auto

lemma visible_completed: "visible_inv W sb k w \<Longrightarrow> ov_completed w \<longleftrightarrow> finished k"
  by (cases k) auto

lemma visible_result:
  "visible_inv W sb k w \<Longrightarrow> finished k \<Longrightarrow>
     wrap_result w = (if deliver_status W (sub_status sb) = 0 then Inr (sub_len sb)
                      else Inl (Win32 (deliver_status W (sub_status sb))))"
  by (cases k) (auto simp: wrap_result_def)

lemma visible_cong:
  "visible_inv W sb k w \<Longrightarrow> ov_completed w' = ov_completed w \<Longrightarrow> ov_err w' = ov_err w \<Longrightarrow>
   ov_len w' = ov_len w \<Longrightarrow> ov_inner w' = ov_inner w \<Longrightarrow>
   sub_status sb' = sub_status sb \<Longrightarrow> sub_len sb' = sub_len sb \<Longrightarrow> visible_inv W sb' k w'"
  by (cases k) auto

lemma pair_advance:
  "pair_inv W skip sb t k \<Longrightarrow> accepted k \<Longrightarrow> accepted k' \<Longrightarrow> (finished k \<Longrightarrow> finished k') \<Longrightarrow>
   sub_ec sb' = sub_ec sb \<Longrightarrow> (finished k \<Longrightarrow> sb' = sb) \<Longrightarrow> pair_inv W skip sb' t k'"
  by (cases t) (auto split: if_splits)

lemma pair_not_idle: "pair_inv W skip sb t k \<Longrightarrow> accepted k \<Longrightarrow> t \<noteq> TPooled"
  by auto

lemmas op_step_simps = on_cell_def upd_wrap_def arc_clone_def arc_drop_def

text \<open>No step touches a freed wrap.\<close>

lemma no_fault:
  assumes "op_inv W skip s"
  shows "op_act W skip a s \<noteq> Fault"
  using assms
  by (cases a; cases "task s"; cases "kern s")
     (auto simp: op_inv_defs on_cell_def split: option.splits bool.splits)

text \<open>The two shapes a step can have: the kernel side moves on, or the task does.\<close>

lemma kernel_advance:
  assumes "op_inv W skip s" and "cell s = Some c" and "cell t = Some c'"
    and "strong c' = strong c" and "task t = task s"
    and "accepted (kern s)" and "accepted (kern t)" and "kern_refs (kern t) = kern_refs (kern s)"
    and "finished (kern s) \<Longrightarrow> finished (kern t) \<and> sub t = sub s"
    and "sub_ec (sub t) = sub_ec (sub s)" and "sub_bytes (sub t) = sub_bytes (sub s)"
    and "ov_bytes (wrap c') = ov_bytes (wrap c)"
    and "visible_inv W (sub t) (kern t) (wrap c')"
    and "wake_inv W (notified t) (task s) (kern t) (wrap c')"
  shows "op_inv W skip t"
proof -
  have pair: "pair_inv W skip (sub s) (task s) (kern s)" using assms(1) by (simp add: op_inv_def)
  have "pair_inv W skip (sub t) (task s) (kern t)"
    using pair_advance [OF pair assms(6,7)] assms(9,10) by simp
  moreover have "task s \<noteq> TPooled" using pair assms(6) by (rule pair_not_idle)
  ultimately show ?thesis using assms by (simp add: op_inv_defs)
qed

lemma task_advance:
  assumes "op_inv W skip s" and "cell s = Some c" and "cell t = Some c'" and "kern t = kern s"
    and "strong c' + task_refs (task s) = strong c + task_refs (task t)" and "0 < task_refs (task t)"
    and "ov_completed (wrap c') = ov_completed (wrap c)" and "ov_err (wrap c') = ov_err (wrap c)"
    and "ov_len (wrap c') = ov_len (wrap c)" and "ov_inner (wrap c') = ov_inner (wrap c)"
    and "sub_status (sub t) = sub_status (sub s)" and "sub_len (sub t) = sub_len (sub s)"
    and "task t \<noteq> TPooled" and "task t = TReturned \<Longrightarrow> ov_bytes (wrap c') = sub_bytes (sub t)"
    and "pair_inv W skip (sub t) (task t) (kern s)"
    and "wake_inv W (notified t) (task t) (kern s) (wrap c')"
  shows "op_inv W skip t"
proof -
  have "visible_inv W (sub s) (kern s) (wrap c)"
    using assms(1,2) by (simp add: op_inv_defs)
  then have "visible_inv W (sub t) (kern s) (wrap c')"
    using assms(7-12) by (rule visible_cong)
  then show ?thesis using assms by (simp add: op_inv_defs)
qed

lemma op_inv_cell:
  assumes "op_inv W skip s" and "cell s = Some c"
  shows "strong c = op_refs s" and "pair_inv W skip (sub s) (task s) (kern s)"
    and "visible_inv W (sub s) (kern s) (wrap c)"
    and "wake_inv W (notified s) (task s) (kern s) (wrap c)"
    and "task s = TReturned \<Longrightarrow> ov_bytes (wrap c) = sub_bytes (sub s)"
    and "ov_completed (wrap c) \<longleftrightarrow> finished (kern s)"
  using assms visible_completed by (fastforce simp: op_inv_defs)+

lemma on_cell_Next: "on_cell g s f = Next t \<Longrightarrow> \<exists>c. g \<and> cell s = Some c \<and> t = f c"
  by (auto simp: on_cell_def split: if_splits option.splits)

lemma inv_kernel_post:
  assumes inv: "op_inv W skip s" and step: "op_act W skip (KernelPost e n) s = Next t"
  shows "op_inv W skip t"
proof -
  from step obtain c where k: "kern s = KQueued" and c: "cell s = Some c"
    and t: "t = s\<lparr>kern := KPosted, cell := upd_wrap (\<lambda>w. w\<lparr>ov_inner := e\<rparr>) c,
      sub := (sub s)\<lparr>sub_status := e, sub_len := n\<rparr>\<rparr>"
    by (auto dest: on_cell_Next)
  note f = op_inv_cell [OF inv c]
  show ?thesis
  proof (rule kernel_advance [OF inv c, where c' = "c\<lparr>wrap := (wrap c)\<lparr>ov_inner := e\<rparr>\<rparr>"])
    show "visible_inv W (sub t) (kern t) (wrap (c\<lparr>wrap := (wrap c)\<lparr>ov_inner := e\<rparr>\<rparr>))"
      using f(3) by (simp add: t k)
    show "wake_inv W (notified t) (task s) (kern t) (wrap (c\<lparr>wrap := (wrap c)\<lparr>ov_inner := e\<rparr>\<rparr>))"
      using f(4) by (simp add: t k wake_inv_def)
  qed (simp_all add: t k c upd_wrap_def)
qed

lemma inv_dequeue:
  assumes inv: "op_inv W skip s" and step: "op_act W skip Dequeue s = Next t"
  shows "op_inv W skip t"
proof -
  from step obtain c where k: "kern s = KPosted" and c: "cell s = Some c"
    and t: "t = s\<lparr>kern := KDeliver (deliver_status W (ov_inner (wrap c))) (sub_len (sub s)) False False\<rparr>"
    by (auto dest: on_cell_Next)
  note f = op_inv_cell [OF inv c]
  show ?thesis
  proof (rule kernel_advance [OF inv c, where c' = "c"])
    show "visible_inv W (sub t) (kern t) (wrap (c))"
      using f(3) by (simp add: t k)
    show "wake_inv W (notified t) (task s) (kern t) (wrap (c))"
      using f(4) by (simp add: t k wake_inv_def)
  qed (simp_all add: t k c upd_wrap_def)
qed

lemma inv_store_err:
  assumes inv: "op_inv W skip s" and step: "op_act W skip StoreErr s = Next t"
  shows "op_inv W skip t"
proof -
  from step obtain c e n fl where k: "kern s = KDeliver e n False fl" and c: "cell s = Some c"
    and t: "t = s\<lparr>kern := KDeliver e n True fl, cell := upd_wrap (\<lambda>w. w\<lparr>ov_err := e\<rparr>) c\<rparr>"
    by (auto dest: on_cell_Next split: kern_pc.splits bool.splits)
  note f = op_inv_cell [OF inv c]
  show ?thesis
  proof (rule kernel_advance [OF inv c, where c' = "c\<lparr>wrap := (wrap c)\<lparr>ov_err := e\<rparr>\<rparr>"])
    show "visible_inv W (sub t) (kern t) (wrap (c\<lparr>wrap := (wrap c)\<lparr>ov_err := e\<rparr>\<rparr>))"
      using f(3) by (simp add: t k)
    show "wake_inv W (notified t) (task s) (kern t) (wrap (c\<lparr>wrap := (wrap c)\<lparr>ov_err := e\<rparr>\<rparr>))"
      using f(4) by (simp add: t k wake_inv_def)
  qed (simp_all add: t k c upd_wrap_def)
qed

lemma inv_store_len:
  assumes inv: "op_inv W skip s" and step: "op_act W skip StoreLen s = Next t"
  shows "op_inv W skip t"
proof -
  from step obtain c e n fe where k: "kern s = KDeliver e n fe False" and c: "cell s = Some c"
    and t: "t = s\<lparr>kern := KDeliver e n fe True, cell := upd_wrap (\<lambda>w. w\<lparr>ov_len := n\<rparr>) c\<rparr>"
    by (auto dest: on_cell_Next split: kern_pc.splits bool.splits)
  note f = op_inv_cell [OF inv c]
  show ?thesis
  proof (rule kernel_advance [OF inv c, where c' = "c\<lparr>wrap := (wrap c)\<lparr>ov_len := n\<rparr>\<rparr>"])
    show "visible_inv W (sub t) (kern t) (wrap (c\<lparr>wrap := (wrap c)\<lparr>ov_len := n\<rparr>\<rparr>))"
      using f(3) by (simp add: t k)
    show "wake_inv W (notified t) (task s) (kern t) (wrap (c\<lparr>wrap := (wrap c)\<lparr>ov_len := n\<rparr>\<rparr>))"
      using f(4) by (simp add: t k wake_inv_def)
  qed (simp_all add: t k c upd_wrap_def)
qed

lemma inv_store_completed:
  assumes inv: "op_inv W skip s" and step: "op_act W skip StoreCompleted s = Next t"
  shows "op_inv W skip t"
proof -
  from step obtain c e n where k: "kern s = KDeliver e n True True" and c: "cell s = Some c"
    and t: "t = s\<lparr>kern := KWake e n, cell := upd_wrap (\<lambda>w. w\<lparr>ov_completed := True\<rparr>) c\<rparr>"
    by (auto dest: on_cell_Next split: kern_pc.splits bool.splits)
  note f = op_inv_cell [OF inv c]
  show ?thesis
  proof (rule kernel_advance [OF inv c, where c' = "c\<lparr>wrap := (wrap c)\<lparr>ov_completed := True\<rparr>\<rparr>"])
    show "visible_inv W (sub t) (kern t) (wrap (c\<lparr>wrap := (wrap c)\<lparr>ov_completed := True\<rparr>\<rparr>))"
      using f(3) by (simp add: t k)
    show "wake_inv W (notified t) (task s) (kern t) (wrap (c\<lparr>wrap := (wrap c)\<lparr>ov_completed := True\<rparr>\<rparr>))"
      using f(4) by (simp add: t k wake_inv_def)
  qed (simp_all add: t k c upd_wrap_def)
qed

lemma inv_wake:
  assumes inv: "op_inv W skip s" and step: "op_act W skip Wake s = Next t"
  shows "op_inv W skip t"
proof -
  from step obtain c e n where k: "kern s = KWake e n" and c: "cell s = Some c"
    and t: "t = s\<lparr>kern := KDropRef e n, notified := notified s \<or> fst (wk_wake W (ov_waker (wrap c))),
      cell := upd_wrap (\<lambda>w. w\<lparr>ov_waker := snd (wk_wake W (ov_waker w))\<rparr>) c\<rparr>"
    by (auto dest: on_cell_Next split: kern_pc.splits bool.splits)
  note f = op_inv_cell [OF inv c]
  show ?thesis
  proof (rule kernel_advance [OF inv c, where c' = "c\<lparr>wrap := (wrap c)\<lparr>ov_waker := snd (wk_wake W (ov_waker (wrap c)))\<rparr>\<rparr>"])
    show "visible_inv W (sub t) (kern t) (wrap (c\<lparr>wrap := (wrap c)\<lparr>ov_waker := snd (wk_wake W (ov_waker (wrap c)))\<rparr>\<rparr>))"
      using f(3) by (simp add: t k)
    show "wake_inv W (notified t) (task s) (kern t) (wrap (c\<lparr>wrap := (wrap c)\<lparr>ov_waker := snd (wk_wake W (ov_waker (wrap c)))\<rparr>\<rparr>))"
      using f(4) by (simp add: t k wake_inv_def)
  qed (simp_all add: t k c upd_wrap_def)
qed

lemma inv_start_await:
  assumes inv: "op_inv W skip s" and step: "op_act W skip StartAwait s = Next t"
  shows "op_inv W skip t"
proof -
  from step obtain c where k: "task s = TReturned" "\<not> sync_ec skip (sub_ec (sub s))" and c: "cell s = Some c"
    and t: "t = s\<lparr>task := TPoll1, cell := Some (arc_clone c)\<rparr>"
    by (auto dest: on_cell_Next)
  note f = op_inv_cell [OF inv c]
  show ?thesis
  proof (rule task_advance [OF inv c, where c' = "arc_clone c"])
    show "pair_inv W skip (sub t) (task t) (kern s)"
      using f(2) by (simp add: t k)
    show "wake_inv W (notified t) (task t) (kern s) (wrap (arc_clone c))"
      by (simp add: t wake_inv_def)
  qed (simp_all add: t k c arc_clone_def)
qed

lemma inv_poll_load1:
  assumes inv: "op_inv W skip s" and step: "op_act W skip PollLoad1 s = Next t"
  shows "op_inv W skip t"
proof -
  from step obtain c where k: "task s = TPoll1" and c: "cell s = Some c"
    and t: "t = s\<lparr>task := (if is_completed (wrap c) then TReady else TRegister)\<rparr>"
    by (auto dest: on_cell_Next)
  note f = op_inv_cell [OF inv c]
  show ?thesis
  proof (rule task_advance [OF inv c, where c' = "c"])
    show "pair_inv W skip (sub t) (task t) (kern s)"
      using f(2,6) by (simp add: t k is_completed_def)
    show "wake_inv W (notified t) (task t) (kern s) (wrap (c))"
      by (simp add: t wake_inv_def)
  qed (simp_all add: t k c split: if_splits)
qed

lemma inv_repoll:
  assumes inv: "op_inv W skip s" and step: "op_act W skip Repoll s = Next t"
  shows "op_inv W skip t"
proof -
  from step obtain c where k: "task s = TParked" and c: "cell s = Some c"
    and t: "t = s\<lparr>task := TPoll1, notified := False\<rparr>"
    by (auto dest: on_cell_Next)
  note f = op_inv_cell [OF inv c]
  show ?thesis
  proof (rule task_advance [OF inv c, where c' = "c"])
    show "pair_inv W skip (sub t) (task t) (kern s)"
      using f(2) by (simp add: t k)
    show "wake_inv W (notified t) (task t) (kern s) (wrap (c))"
      by (simp add: t wake_inv_def)
  qed (simp_all add: t k c upd_wrap_def)
qed

lemma inv_cancel:
  assumes inv: "op_inv W skip s" and step: "op_act W skip CancelFuture s = Next t"
  shows "op_inv W skip t"
proof -
  from step obtain c where k: "task s = TParked" and c: "cell s = Some c"
    and t: "t = s\<lparr>task := TDropCheck\<rparr>"
    by (auto dest: on_cell_Next)
  note f = op_inv_cell [OF inv c]
  show ?thesis
  proof (rule task_advance [OF inv c, where c' = "c"])
    show "pair_inv W skip (sub t) (task t) (kern s)"
      using f(2) by (simp add: t k)
    show "wake_inv W (notified t) (task t) (kern s) (wrap (c))"
      by (simp add: t wake_inv_def)
  qed (simp_all add: t k c upd_wrap_def)
qed

lemma inv_drop_check:
  assumes inv: "op_inv W skip s" and step: "op_act W skip DropCheck s = Next t"
  shows "op_inv W skip t"
proof -
  from step obtain c where k: "task s = TDropCheck" and c: "cell s = Some c"
    and t: "t = s\<lparr>task := (if is_completed (wrap c) then TDropDone else TSpin)\<rparr>"
    by (auto dest: on_cell_Next)
  note f = op_inv_cell [OF inv c]
  show ?thesis
  proof (rule task_advance [OF inv c, where c' = "c"])
    show "pair_inv W skip (sub t) (task t) (kern s)"
      using f(2,6) by (simp add: t k is_completed_def)
    show "wake_inv W (notified t) (task t) (kern s) (wrap (c))"
      by (simp add: t wake_inv_def)
  qed (simp_all add: t k c split: if_splits)
qed

lemma inv_spin:
  assumes inv: "op_inv W skip s" and step: "op_act W skip Spin s = Next t"
  shows "op_inv W skip t"
proof -
  from step obtain c where k: "task s = TSpin" and c: "cell s = Some c"
    and t: "t = s\<lparr>task := (if is_completed (wrap c) then TDropDone else TSpin)\<rparr>"
    by (auto dest: on_cell_Next)
  note f = op_inv_cell [OF inv c]
  show ?thesis
  proof (rule task_advance [OF inv c, where c' = "c"])
    show "pair_inv W skip (sub t) (task t) (kern s)"
      using f(2,6) by (simp add: t k is_completed_def)
    show "wake_inv W (notified t) (task t) (kern s) (wrap (c))"
      by (simp add: t wake_inv_def)
  qed (simp_all add: t k c split: if_splits)
qed

lemma inv_poll_load2:
  assumes inv: "op_inv W skip s" and step: "op_act W skip PollLoad2 s = Next t"
  shows "op_inv W skip t"
proof -
  from step obtain c where k: "task s = TPoll2" and c: "cell s = Some c"
    and t: "t = s\<lparr>task := (if is_completed (wrap c) then TReady else TParked)\<rparr>"
    by (auto dest: on_cell_Next)
  note f = op_inv_cell [OF inv c]
  show ?thesis
  proof (rule task_advance [OF inv c, where c' = "c"])
    show "pair_inv W skip (sub t) (task t) (kern s)"
      using f(2,6) by (simp add: t k is_completed_def)
    show "wake_inv W (notified t) (task t) (kern s) (wrap (c))"
      using f(4,6) woken_finished by (auto simp: t k wake_inv_def is_completed_def)
  qed (simp_all add: t k c split: if_splits)
qed

lemma inv_read_result:
  assumes inv: "op_inv W skip s" and step: "op_act W skip ReadResult s = Next t"
  shows "op_inv W skip t"
proof -
  from step obtain c where k: "task s = TReady" and c: "cell s = Some c"
    and t: "t = s\<lparr>task := TGiveBack (wrap_result (wrap c)), cell := arc_drop c\<rparr>"
    by (auto dest: on_cell_Next)
  note f = op_inv_cell [OF inv c]
  show ?thesis
  proof (rule task_advance [OF inv c, where c' = "c\<lparr>strong := strong c - 1\<rparr>"])
    show "pair_inv W skip (sub t) (task t) (kern s)"
      using f(2) visible_result [OF f(3)] by (simp add: t k op_finish_async)
    show "wake_inv W (notified t) (task t) (kern s) (wrap (c\<lparr>strong := strong c - 1\<rparr>))"
      by (simp add: t wake_inv_def)
  qed (use f(1) in \<open>simp_all add: t k c arc_drop_def op_refs_def\<close>)
qed

lemma inv_poll_register:
  assumes inv: "op_inv W skip s" and ok: "waker_ok W" and step: "op_act W skip PollRegister s = Next t"
  shows "op_inv W skip t"
proof -
  from step obtain c where k: "task s = TRegister" and c: "cell s = Some c"
    and t: "t = s\<lparr>task := TPoll2, cell := upd_wrap (\<lambda>w. w\<lparr>ov_waker := wk_register W (ov_waker w)\<rparr>) c\<rparr>"
    by (auto dest: on_cell_Next)
  note f = op_inv_cell [OF inv c]
  let ?c = "c\<lparr>wrap := (wrap c)\<lparr>ov_waker := wk_register W (ov_waker (wrap c))\<rparr>\<rparr>"
  show ?thesis
  proof (rule task_advance [OF inv c, where c' = ?c])
    show "pair_inv W skip (sub t) (task t) (kern s)" using f(2) by (simp add: t k)
    show "wake_inv W (notified t) (task t) (kern s) (wrap ?c)"
      using ok by (simp add: t wake_inv_def waker_ok_def)
  qed (simp_all add: t k c upd_wrap_def)
qed

lemma inv_call_returns:
  assumes inv: "op_inv W skip s" and step: "op_act W skip (CallReturns ec b) s = Next t"
  shows "op_inv W skip t"
proof -
  from step obtain c where k: "task s = TSubmitted" and r: "may_return skip ec (kern s)" and c: "cell s = Some c"
    and t: "t = s\<lparr>task := TReturned, kern := (if sync_ec skip ec then KInline else kern s),
      cell := upd_wrap (\<lambda>w. w\<lparr>ov_bytes := b\<rparr>) c, sub := (sub s)\<lparr>sub_ec := ec, sub_bytes := b\<rparr>\<rparr>"
    by (auto dest: on_cell_Next)
  note f = op_inv_cell [OF inv c]
  show ?thesis
  proof (cases "sync_ec skip ec")
    case True
    with r have "kern s = KOwned" by (simp add: may_return_def)
    with True f(1,3) k show ?thesis
      by (simp add: t op_inv_defs upd_wrap_def wake_inv_def)
  next
    case False
    with r f(2) k have acc: "accepted (kern s)" by (auto simp: may_return_def)
    show ?thesis
      by (rule task_advance [OF inv c, where c' = "c\<lparr>wrap := (wrap c)\<lparr>ov_bytes := b\<rparr>\<rparr>"])
         (simp_all add: t k False acc upd_wrap_def wake_inv_def)
  qed
qed

lemma inv_kernel_accept:
  assumes inv: "op_inv W skip s" and step: "op_act W skip KernelAccept s = Next t"
  shows "op_inv W skip t"
proof -
  from step obtain c where k: "task s = TSubmitted" "kern s = KOwned" and c: "cell s = Some c"
    and t: "t = s\<lparr>kern := KQueued\<rparr>"
    by (auto dest: on_cell_Next)
  from op_inv_cell [OF inv c] k c show ?thesis
    by (simp add: t op_inv_defs wake_inv_def)
qed

lemma inv_reclaim:
  assumes inv: "op_inv W skip s" and step: "op_act W skip Reclaim s = Next t"
  shows "op_inv W skip t"
proof -
  from step obtain c where k: "task s = TReturned" "sync_ec skip (sub_ec (sub s))" and c: "cell s = Some c"
    and t: "t = s\<lparr>task := TGiveBack (if sub_ec (sub s) = 0 then Inr (ov_bytes (wrap c))
        else Inl (Win32 (sub_ec (sub s)))), kern := KNone, cell := arc_drop c\<rparr>"
    by (auto dest: on_cell_Next)
  note f = op_inv_cell [OF inv c]
  from f(2) k have "kern s = KInline" by simp
  with f(1,3,5) k show ?thesis
    by (simp add: t op_inv_defs wake_inv_def arc_drop_def op_finish_sync)
qed

lemma inv_drop_ref:
  assumes inv: "op_inv W skip s" and step: "op_act W skip DropRef s = Next t"
  shows "op_inv W skip t"
proof -
  from step obtain c e n where k: "kern s = KDropRef e n" and c: "cell s = Some c"
    and t: "t = s\<lparr>kern := KDone e n, cell := arc_drop c\<rparr>"
    by (auto dest: on_cell_Next split: kern_pc.splits)
  note f = op_inv_cell [OF inv c]
  have pair: "pair_inv W skip (sub s) (task s) (KDone e n)"
    using pair_advance [OF f(2), of "KDone e n" "sub s"] k by simp
  have "task s \<noteq> TPooled" using pair_not_idle [OF pair] by simp
  with pair f(1,3,4,5) k show ?thesis
    by (auto simp: t op_inv_defs arc_drop_def wake_inv_def)
qed

lemma inv_drop_handles:
  assumes inv: "op_inv W skip s" and step: "op_act W skip DropHandles s = Next t"
  shows "op_inv W skip t"
proof -
  from step obtain c where k: "task s = TDropDone" and c: "cell s = Some c"
    and t: "t = s\<lparr>task := TNone, cell := Option.bind (arc_drop c) arc_drop\<rparr>"
    by (auto dest: on_cell_Next)
  note f = op_inv_cell [OF inv c]
  have le: "kern_refs (kern s) \<le> 1" by (cases "kern s") auto
  from f(1) k have "strong c = kern_refs (kern s) + 2" by (simp add: op_refs_def)
  with f(2,3) k le show ?thesis
    by (auto simp: t op_inv_defs arc_drop_def wake_inv_def le_Suc_eq)
qed

lemmas op_inv_steps = inv_kernel_accept inv_kernel_post inv_call_returns inv_reclaim inv_start_await
  inv_poll_load1 inv_poll_register inv_poll_load2 inv_repoll inv_read_result inv_cancel inv_drop_check
  inv_spin inv_drop_handles inv_dequeue inv_store_err inv_store_len inv_store_completed inv_wake
  inv_drop_ref

text \<open>Every step keeps the invariant.\<close>

lemma op_inv_step:
  assumes "op_inv W skip s" and "waker_ok W" and "op_act W skip a s = Next t"
  shows "op_inv W skip t"
  using assms by (cases a) (metis op_inv_steps)+

section \<open>All operations of a queue\<close>

text \<open>
  The operations of one request queue share its free list.  An address is an
  \<open>Arc<OverlappedWrap>\<close>; \<open>Submit\<close> is \<open>Op::new\<close> (take from the free list or allocate, then hand a second
  reference to the kernel), \<open>GiveBack\<close> is \<open>OpPool::give_back\<close> at the end of \<open>finish\<close>.
\<close>

record ('w, 'q) world =
  ops :: "nat \<Rightarrow> 'w op_state"
  next_addr :: nat
  free_list :: "(nat, 'q) array_queue"

datatype world_action = Submit | GiveBack nat | Act nat op_action

definition no_submission :: submission where
  "no_submission = \<lparr>sub_ec = 0, sub_bytes = 0, sub_status = 0, sub_len = 0\<rparr>"

definition idle_op :: "'w op_state" where
  "idle_op = \<lparr>task = TNone, kern = KNone, notified = False, cell = None, sub = no_submission\<rparr>"

definition submitted_op :: "'w arc \<Rightarrow> 'w op_state" where
  "submitted_op c = \<lparr>task = TSubmitted, kern = KOwned, notified = False, cell = Some (arc_clone c),
     sub = no_submission\<rparr>"

definition op_new :: "'w ov_env \<Rightarrow> ('w, 'q) world \<Rightarrow> ('w, 'q) world outcome" where
  "op_new W w =
     (case aq_pop (free_list w) of
        (Some a, free) \<Rightarrow>
          (case cell (ops w a) of
             None \<Rightarrow> Fault
           | Some c \<Rightarrow> Next (w\<lparr>ops := (ops w)(a := submitted_op c), free_list := free\<rparr>))
      | (None, free) \<Rightarrow>
          Next (w\<lparr>ops := (ops w)(next_addr w := submitted_op \<lparr>strong = 1, wrap = wrap_new W\<rparr>),
                  next_addr := Suc (next_addr w), free_list := free\<rparr>))"

fun is_give_back :: "task_pc \<Rightarrow> bool" where
  "is_give_back (TGiveBack r) = True"
| "is_give_back _ = False"

definition give_back :: "'w ov_env \<Rightarrow> nat \<Rightarrow> ('w, 'q) world \<Rightarrow> ('w, 'q) world outcome" where
  "give_back W a w =
     (if \<not> is_give_back (task (ops w a)) then Disabled
      else case cell (ops w a) of
        None \<Rightarrow> Fault
      | Some c \<Rightarrow>
          if \<not> arc_get_mut c then
            Next (w\<lparr>ops := (ops w)(a := (ops w a)\<lparr>task := TNone, cell := arc_drop c\<rparr>)\<rparr>)
          else case aq_push_op (free_list w) a (aq_state (free_list w)) of
            None \<Rightarrow> Next (w\<lparr>ops := (ops w)(a := (ops w a)\<lparr>task := TNone, cell := None\<rparr>)\<rparr>)
          | Some q \<Rightarrow>
              Next (w\<lparr>ops := (ops w)(a := (ops w a)\<lparr>task := TPooled, kern := KNone,
                       cell := Some (c\<lparr>wrap := wrap_reset W (wrap c)\<rparr>)\<rparr>),
                      free_list := (free_list w)\<lparr>aq_state := q\<rparr>\<rparr>))"

fun world_act :: "'w ov_env \<Rightarrow> bool \<Rightarrow> world_action \<Rightarrow> ('w, 'q) world \<Rightarrow> ('w, 'q) world outcome" where
  "world_act W skip Submit w = op_new W w"
| "world_act W skip (GiveBack a) w = give_back W a w"
| "world_act W skip (Act a act) w =
     (case op_act W skip act (ops w a) of
        Disabled \<Rightarrow> Disabled
      | Fault \<Rightarrow> Fault
      | Next s \<Rightarrow> Next (w\<lparr>ops := (ops w)(a := s)\<rparr>))"

definition init_world :: "(nat, 'q) array_queue \<Rightarrow> ('w, 'q) world" where
  "init_world free = \<lparr>ops = (\<lambda>_. idle_op), next_addr = 0, free_list = free\<rparr>"

text \<open>The worlds any schedule can reach.\<close>

inductive reachable :: "'w ov_env \<Rightarrow> bool \<Rightarrow> (nat, 'q) array_queue \<Rightarrow> ('w, 'q) world \<Rightarrow> bool"
  for W skip free where
  start: "reachable W skip free (init_world free)"
| step: "reachable W skip free w \<Longrightarrow> world_act W skip act w = Next w' \<Longrightarrow> reachable W skip free w'"

inductive_cases reachable_stepE: "reachable W skip free w"

definition world_inv :: "'w ov_env \<Rightarrow> bool \<Rightarrow> ('w, 'q) world \<Rightarrow> bool" where
  "world_inv W skip w \<longleftrightarrow>
     aq_ok (free_list w) \<and> distinct (aq_items (free_list w)) \<and> (\<forall>a. op_inv W skip (ops w a)) \<and>
     (\<forall>a. a \<in> set (aq_items (free_list w)) \<longleftrightarrow> task (ops w a) = TPooled) \<and>
     (\<forall>a. next_addr w \<le> a \<longrightarrow> task (ops w a) = TNone)"

lemma op_inv_idle [simp]: "op_inv W skip idle_op"
  by (simp add: idle_op_def op_inv_defs)

lemma op_inv_submitted:
  "strong c = 1 \<Longrightarrow> wrap c = wrap_new W \<Longrightarrow> op_inv W skip (submitted_op c)"
  by (simp add: submitted_op_def op_inv_defs arc_clone_def wake_inv_def wrap_new_def)

lemma op_inv_pooled:
  assumes "op_inv W skip s" and "task s = TPooled"
  shows "kern s = KNone \<and> (\<exists>c. cell s = Some c \<and> strong c = 1 \<and> wrap c = wrap_new W)"
  using assms by (auto simp: op_inv_defs split: option.splits)

lemma wrap_reset_new [simp]: "wrap_reset W w = wrap_new W"
  by (simp add: wrap_reset_def wrap_new_def)

lemma world_inv_init:
  assumes "aq_ok free" and "aq_items free = []"
  shows "world_inv W skip (init_world free)"
  using assms by (simp add: world_inv_def init_world_def) (simp add: idle_op_def)

text \<open>A local step neither enters nor leaves the free list, and never starts from no task.\<close>

lemma op_act_pool:
  assumes inv: "op_inv W skip s" and step: "op_act W skip a s = Next t"
  shows "task t = TPooled \<longleftrightarrow> task s = TPooled" and "task s = TNone \<Longrightarrow> task t = TNone"
proof -
  have "task s = TPooled \<Longrightarrow> kern s = KNone" using op_inv_pooled [OF inv] by blast
  with step show "task t = TPooled \<longleftrightarrow> task s = TPooled"
    by (cases a) (auto dest!: on_cell_Next split: kern_pc.splits bool.splits if_splits)
  from step show "task s = TNone \<Longrightarrow> task t = TNone"
    by (cases a) (auto dest!: on_cell_Next split: kern_pc.splits bool.splits if_splits)
qed

lemma world_inv_parts:
  assumes "world_inv W skip w"
  shows "aq_ok (free_list w)" and "distinct (aq_items (free_list w))" and "op_inv W skip (ops w a)"
    and "a \<in> set (aq_items (free_list w)) \<longleftrightarrow> task (ops w a) = TPooled"
    and "task (ops w a) \<noteq> TNone \<Longrightarrow> a < next_addr w"
  using assms unfolding world_inv_def by (blast, blast, blast, blast, meson leI)

lemma world_inv_act:
  assumes inv: "world_inv W skip w" and ok: "waker_ok W"
    and step: "world_act W skip (Act a act) w = Next w'"
  shows "world_inv W skip w'"
proof -
  from step obtain s where s: "op_act W skip act (ops w a) = Next s"
    and w': "w' = w\<lparr>ops := (ops w)(a := s)\<rparr>"
    by (auto split: outcome.splits)
  have op: "op_inv W skip (ops w a)" using inv by (simp add: world_inv_def)
  have "op_inv W skip s" using op_inv_step [OF op ok s] .
  with inv op_act_pool [OF op s] show ?thesis by (auto simp: world_inv_def w')
qed

text \<open>Every step of the world writes one operation and at most its address in the free list.\<close>

lemma world_inv_write:
  assumes inv: "world_inv W skip w" and s: "op_inv W skip s" and free: "aq_ok free" "distinct (aq_items free)"
    and n: "next_addr w \<le> n" "a < n" and a: "a \<in> set (aq_items free) \<longleftrightarrow> task s = TPooled"
    and others: "set (aq_items free) - {a} = set (aq_items (free_list w)) - {a}"
  shows "world_inv W skip (w\<lparr>ops := (ops w)(a := s), next_addr := n, free_list := free\<rparr>)"
proof -
  have "x \<in> set (aq_items free) \<longleftrightarrow> task (ops w x) = TPooled" if "x \<noteq> a" for x
    using that others world_inv_parts(4) [OF inv, of x] by blast
  moreover have "task (ops w x) = TNone" if "n \<le> x" for x
    using world_inv_parts(5) [OF inv, of x] n(1) that by force
  ultimately show ?thesis using inv s free n(2) a by (auto simp: world_inv_def)
qed

lemma world_inv_submit:
  assumes inv: "world_inv W skip w" and step: "world_act W skip Submit w = Next w'"
  shows "world_inv W skip w'"
proof -
  obtain r free where pop: "aq_pop (free_list w) = (r, free)" by fastforce
  note parts = world_inv_parts [OF inv]
  note items = aq_pop_items [OF parts(1) pop] and upd = world_inv_write [OF inv _ aq_ok_pop [OF parts(1) pop]]
  have t: "task (submitted_op c) = TSubmitted" for c by (simp add: submitted_op_def)
  show ?thesis
  proof (cases r)
    case None
    have w': "w' = w\<lparr>ops := (ops w)(next_addr w := submitted_op \<lparr>strong = 1, wrap = wrap_new W\<rparr>),
        next_addr := Suc (next_addr w), free_list := free\<rparr>"
      using step None pop by (simp add: op_new_def)
    show ?thesis unfolding w' using items None by (intro upd op_inv_submitted) (simp_all add: t)
  next
    case (Some a)
    have it: "aq_items (free_list w) = a # aq_items free" using items(3) [OF Some] .
    then have pooled: "task (ops w a) = TPooled" using parts(4) [of a] by simp
    then obtain c where c: "cell (ops w a) = Some c" "strong c = 1" "wrap c = wrap_new W"
      using op_inv_pooled [OF parts(3)] by blast
    have w': "w' = w\<lparr>ops := (ops w)(a := submitted_op c), next_addr := next_addr w, free_list := free\<rparr>"
      using step Some pop c(1) by (simp add: op_new_def)
    have "a < next_addr w" "a \<notin> set (aq_items free)" "distinct (aq_items free)"
      using parts(5) [of a] parts(2) pooled it by simp_all
    then show ?thesis unfolding w' using c it by (intro upd op_inv_submitted) (simp_all add: t)
  qed
qed

text \<open>What giving an operation back leaves: the last reference but the kernel's, or none that could still reach it.\<close>

lemma op_inv_give_back_shared:
  assumes op: "op_inv W skip s" and r: "task s = TGiveBack r" and c: "cell s = Some c" and "\<not> arc_get_mut c"
  shows "op_inv W skip (s\<lparr>task := TNone, cell := arc_drop c\<rparr>)"
proof -
  note f = op_inv_cell [OF op c]
  have "kern s = KNone \<or> finished (kern s)" using f(2) r by (auto split: if_splits)
  moreover have "kern_refs (kern s) = 1"
    using assms(4) f(1) r by (cases "kern s") (auto simp: op_refs_def arc_get_mut_def)
  ultimately show ?thesis using f(1,3) r by (auto simp: op_inv_defs arc_drop_def wake_inv_def)
qed

lemma op_inv_give_back_unique:
  assumes op: "op_inv W skip s" and r: "task s = TGiveBack r" and c: "cell s = Some c" and mut: "arc_get_mut c"
  shows "op_inv W skip (s\<lparr>task := TNone, cell := None\<rparr>)"
    and "op_inv W skip (s\<lparr>task := TPooled, kern := KNone, cell := Some (c\<lparr>wrap := wrap_reset W (wrap c)\<rparr>)\<rparr>)"
proof -
  have "kern_refs (kern s) = 0 \<and> (kern s = KNone \<or> finished (kern s))"
    using op r c mut by (auto simp: op_inv_defs arc_get_mut_def split: if_splits)
  then show "op_inv W skip (s\<lparr>task := TNone, cell := None\<rparr>)" by (simp add: op_inv_defs)
  show "op_inv W skip (s\<lparr>task := TPooled, kern := KNone, cell := Some (c\<lparr>wrap := wrap_reset W (wrap c)\<rparr>)\<rparr>)"
    using mut by (simp add: op_inv_defs arc_get_mut_def wake_inv_def) (simp add: wrap_new_def)
qed

lemma world_inv_give_back:
  assumes inv: "world_inv W skip w" and step: "world_act W skip (GiveBack a) w = Next w'"
  shows "world_inv W skip w'"
proof -
  let ?s = "ops w a"
  from step obtain c r where c: "cell ?s = Some c" and r: "task ?s = TGiveBack r"
    by (cases "task ?s") (auto simp: give_back_def split: if_splits option.splits)
  note op = world_inv_parts(3) [OF inv, of a] and ok = world_inv_parts(1) [OF inv]
    and shared = op_inv_give_back_shared [OF op r c] and unique = op_inv_give_back_unique [OF op r c]
  have bound: "a < next_addr w" and fresh: "a \<notin> set (aq_items (free_list w))"
    using world_inv_parts(4,5) [OF inv, of a] r by simp_all
  have gone: "world_inv W skip (w\<lparr>ops := (ops w)(a := s)\<rparr>)" if "op_inv W skip s" "task s = TNone" for s
    using inv that r by (auto simp: world_inv_def)
  consider "\<not> arc_get_mut c" | "arc_get_mut c" "aq_push_op (free_list w) a (aq_state (free_list w)) = None"
    | q where "arc_get_mut c" "aq_push_op (free_list w) a (aq_state (free_list w)) = Some q" by blast
  then show ?thesis
  proof cases
    case 1
    with step r c gone [OF shared] show ?thesis by (simp add: give_back_def)
  next
    case 2
    with step r c gone [OF unique(1)] show ?thesis by (simp add: give_back_def)
  next
    case 3
    have fl: "(free_list w)\<lparr>aq_state := q\<rparr> = aq_push a (free_list w)" using 3(2) by (simp add: aq_push_def)
    have "aq_push_law (free_list w) a (aq_state (free_list w))" using ok by (simp add: aq_ok_def)
    with 3(2) have room: "length (aq_items (free_list w)) < aq_cap (free_list w)"
      by (simp add: aq_push_law_def aq_items_def aq_cap_def)
    have w': "w' = w\<lparr>ops := (ops w)(a := ?s\<lparr>task := TPooled, kern := KNone, cell := Some (c\<lparr>wrap := wrap_reset W (wrap c)\<rparr>)\<rparr>),
        next_addr := next_addr w, free_list := aq_push a (free_list w)\<rparr>"
      using step r c 3 fl by (simp add: give_back_def)
    show ?thesis unfolding w'
      using ok room fresh bound world_inv_parts(2) [OF inv]
      by (intro world_inv_write [OF inv unique(2) [OF 3(1)]]) (auto simp: aq_items_push)
  qed
qed

lemma world_inv_step:
  assumes "world_inv W skip w" and "waker_ok W" and "world_act W skip act w = Next w'"
  shows "world_inv W skip w'"
  using assms by (cases act) (metis world_inv_act world_inv_submit world_inv_give_back)+

lemma reachable_inv:
  assumes "waker_ok W" and "aq_ok free" and "aq_items free = []" and "reachable W skip free w"
  shows "world_inv W skip w"
  using assms(4)
proof (induction rule: reachable.induct)
  case start
  show ?case using assms(2,3) by (rule world_inv_init)
next
  case (step w act w')
  then show ?case using world_inv_step assms(1) by blast
qed

lemma world_no_fault:
  assumes inv: "world_inv W skip w"
  shows "world_act W skip act w \<noteq> Fault"
proof (cases act)
  case Submit
  obtain r free where pop: "aq_pop (free_list w) = (r, free)" by fastforce
  have "cell (ops w a) \<noteq> None" if "r = Some a" for a
  proof -
    have "a \<in> set (aq_items (free_list w))"
      using aq_pop_items(3) [OF _ pop that] inv by (simp add: world_inv_def)
    then show ?thesis using inv op_inv_pooled by (fastforce simp: world_inv_def)
  qed
  with Submit pop show ?thesis by (auto simp: op_new_def split: option.splits)
next
  case (GiveBack a)
  have "op_inv W skip (ops w a)" using inv by (simp add: world_inv_def)
  then have "cell (ops w a) \<noteq> None" if "is_give_back (task (ops w a))"
    using that by (cases "task (ops w a)"; cases "cell (ops w a)") (auto simp: op_inv_defs)
  with GiveBack show ?thesis by (auto simp: give_back_def split: option.splits)
next
  case (Act a x)
  have "op_inv W skip (ops w a)" using inv by (simp add: world_inv_def)
  with Act no_fault [OF this, of x] show ?thesis by (auto split: outcome.splits)
qed

section \<open>The pool of wraps\<close>

definition arc_pristine :: "'w ov_env \<Rightarrow> 'w arc \<Rightarrow> bool" where
  "arc_pristine W c \<longleftrightarrow> strong c = 1 \<and> wrap c = wrap_new W"

definition op_pool_inv :: "'w ov_env \<Rightarrow> ('w, 'q) OpPool \<Rightarrow> bool" where
  "op_pool_inv W p \<longleftrightarrow> aq_ok p \<and> list_all (arc_pristine W) (aq_items p)"

lemma op_pool_take_keeps:
  assumes inv: "op_pool_inv W p" and tk: "op_pool_take W p = (c, p')"
  shows "op_pool_inv W p' \<and> aq_cap p' = aq_cap p" and "arc_pristine W c"
proof -
  obtain r q where pop: "aq_pop p = (r, q)" by fastforce
  have ok: "aq_ok p" using inv by (simp add: op_pool_inv_def)
  note items = aq_pop_items [OF ok pop]
  show "op_pool_inv W p' \<and> aq_cap p' = aq_cap p"
    using inv tk pop items aq_ok_pop [OF ok pop]
    by (cases r) (auto simp: op_pool_inv_def op_pool_take_def)
  show "arc_pristine W c"
    using inv tk pop items
    by (cases r) (auto simp: op_pool_inv_def op_pool_take_def arc_pristine_def)
qed

lemma op_pool_give_back_keeps:
  assumes "op_pool_inv W p"
  shows "op_pool_inv W (op_pool_give_back W c p) \<and> aq_cap (op_pool_give_back W c p) = aq_cap p"
  using assms
  by (simp add: op_pool_inv_def op_pool_give_back_def aq_items_push aq_cap_push arc_pristine_def
      arc_get_mut_def)

interpretation op_recycler: recycler "op_pool_inv W" aq_items aq_cap "\<lambda>_ :: unit. op_pool_take W"
  "op_pool_give_back W" "arc_pristine W" "\<lambda>_. True" for W :: "'w ov_env"
proof unfold_locales
  fix p :: "('w, 'a) OpPool"
  assume "op_pool_inv W p"
  then show "length (aq_items p) \<le> aq_cap p" by (simp add: op_pool_inv_def aq_ok_def)
qed (simp_all add: op_pool_take_keeps op_pool_give_back_keeps)

section \<open>Running the machine\<close>

text \<open>A schedule, and a concrete environment to run schedules in.\<close>

fun world_run :: "'w ov_env \<Rightarrow> bool \<Rightarrow> world_action list \<Rightarrow> ('w, 'q) world \<Rightarrow> ('w, 'q) world outcome" where
  "world_run W skip [] w = Next w"
| "world_run W skip (a # as) w =
     (case world_act W skip a w of Next w' \<Rightarrow> world_run W skip as w' | Disabled \<Rightarrow> Disabled | Fault \<Rightarrow> Fault)"

definition flag_env :: "bool ov_env" where
  "flag_env = \<lparr>wk_new = False, wk_register = (\<lambda>_. True), wk_wake = (\<lambda>b. (b, False)),
     get_overlapped_result = (\<lambda>st. if st = 0 then None else Some ((st AND 0xFFFF) OR 0x80070000))\<rparr>"

lemma flag_env_ok: "waker_ok flag_env"
  by (simp add: waker_ok_def flag_env_def)

lemma reachable_world_run:
  "reachable W skip free w \<Longrightarrow> world_run W skip as w = Next w' \<Longrightarrow> reachable W skip free w'"
proof (induction as arbitrary: w)
  case Nil
  then show ?case by simp
next
  case (Cons a as)
  then show ?case by (auto split: outcome.splits intro: reachable.step)
qed

definition list_queue2 :: "(nat, nat list \<times> nat) array_queue" where
  "list_queue2 = list_queue_new 2"

lemma list_queue2_ok: "aq_ok list_queue2" "aq_items list_queue2 = []"
  using list_queue_new_ok [where 'a = nat] unfolding aq_new_ok_def list_queue2_def by auto

text \<open>The world a schedule leads to from the start, for the schedules that run through.\<close>

definition end_of :: "'w ov_env \<Rightarrow> bool \<Rightarrow> (nat, 'q) array_queue \<Rightarrow> world_action list \<Rightarrow> ('w, 'q) world" where
  "end_of W skip free as = (case world_run W skip as (init_world free) of Next w \<Rightarrow> w | _ \<Rightarrow> init_world free)"

lemma reachable_end_of: "reachable W skip free (end_of W skip free as)"
  using reachable_world_run [OF reachable.start] unfolding end_of_def
  by (cases "world_run W skip as (init_world free)") (auto intro: reachable.start)

definition park :: "world_action list" where
  "park = Submit # map (Act 0) [KernelAccept, CallReturns 997 0, StartAwait, PollLoad1, PollRegister, PollLoad2]"

definition deliver :: "world_action list" where
  "deliver = map (Act 0) [KernelPost 0 42, Dequeue, StoreLen, StoreErr, StoreCompleted, Wake]"


text \<open>Runs of one operation.\<close>

fun op_run :: "'w ov_env \<Rightarrow> bool \<Rightarrow> op_action list \<Rightarrow> 'w op_state \<Rightarrow> 'w op_state outcome" where
  "op_run W skip [] s = Next s"
| "op_run W skip (a # as) s =
     (case op_act W skip a s of Next t \<Rightarrow> op_run W skip as t | Disabled \<Rightarrow> Disabled | Fault \<Rightarrow> Fault)"

text \<open>The completion thread's part: \<open>deliver_completion\<close> and the drop of its reference.\<close>

definition completion_steps :: "op_action list" where
  "completion_steps = [Dequeue, StoreErr, StoreLen, StoreCompleted, Wake, DropRef]"

lemma op_run_append:
  "op_run W skip (as @ bs) s =
     (case op_run W skip as s of Next t \<Rightarrow> op_run W skip bs t | Disabled \<Rightarrow> Disabled | Fault \<Rightarrow> Fault)"
  by (induction as arbitrary: s) (auto split: outcome.splits)

lemma finished_not_held: "finished k \<Longrightarrow> \<not> kernel_holds k"
  by (cases k) auto

lemma completion_steps_run:
  assumes "cell s = Some c" and "2 \<le> strong c"
  shows "kern s = KPosted \<longrightarrow> op_run W skip completion_steps s = Next (s\<lparr>
        kern := KDone (deliver_status W (ov_inner (wrap c))) (sub_len (sub s)),
        notified := notified s \<or> fst (deliver_completion W (sub_len (sub s)) (wrap c)),
        cell := Some (c\<lparr>strong := strong c - 1, wrap := snd (deliver_completion W (sub_len (sub s)) (wrap c))\<rparr>)\<rparr>)"
  using assms
  by (cases "wk_wake W (ov_waker (wrap c))")
     (simp add: completion_steps_def op_step_simps deliver_completion_def complete_def Let_def)

lemma poll_steps_run:
  assumes "cell s = Some c" and "2 \<le> strong c"
  shows "task s = TPoll1 \<longrightarrow> (case poll_complete W (wrap c) id of
         (Pending, w) \<Rightarrow> op_run W skip [PollLoad1, PollRegister, PollLoad2] s =
            Next (s\<lparr>task := TParked, cell := Some (c\<lparr>wrap := w\<rparr>)\<rparr>)
       | (Ready r, w) \<Rightarrow> op_run W skip [PollLoad1, ReadResult] s =
            Next (s\<lparr>task := TGiveBack r, cell := Some (c\<lparr>strong := strong c - 1, wrap := w\<rparr>)\<rparr>))"
  using assms by (simp add: poll_complete_def op_step_simps is_completed_def Let_def)

lemma posted_reaches_waiter:
  assumes "op_inv W skip s" and "kern s = KPosted"
  shows "(task s = TParked \<longrightarrow>
      (\<exists>t. op_run W skip (completion_steps @ [Repoll, PollLoad1, ReadResult]) s = Next t \<and>
           task t = TGiveBack (op_finish W skip (sub s)))) \<and>
    (task s = TSpin \<longrightarrow>
      (\<exists>t. op_run W skip (completion_steps @ [Spin, DropHandles]) s = Next t \<and>
           task t = TNone \<and> cell t = None))"
proof -
  obtain c where c: "cell s = Some c"
    using assms by (cases "cell s") (auto simp: op_inv_defs)
  note f = op_inv_cell [OF assms(1) c]
  have inner: "ov_inner (wrap c) = sub_status (sub s)" using f(3) assms(2) by simp
  note steps = completion_steps_run [OF c, of W skip, rule_format, OF _ assms(2)]
  note evals = op_run_append steps op_step_simps is_completed_def wrap_result_def
    deliver_completion_def complete_def inner
  show ?thesis
  proof (intro conjI impI)
    assume p: "task s = TParked"
    then have "strong c = 3" using f(1) assms(2) by (simp add: op_refs_def)
    moreover have "\<not> sync_ec skip (sub_ec (sub s))" using f(2) p by simp
    ultimately show "\<exists>t. op_run W skip (completion_steps @ [Repoll, PollLoad1, ReadResult]) s = Next t \<and>
           task t = TGiveBack (op_finish W skip (sub s))"
      using p by (cases "wk_wake W (ov_waker (wrap c))") (simp add: evals op_finish_async)
  next
    assume p: "task s = TSpin"
    then have "strong c = 3" using f(1) assms(2) by (simp add: op_refs_def)
    then show "\<exists>t. op_run W skip (completion_steps @ [Spin, DropHandles]) s = Next t \<and>
           task t = TNone \<and> cell t = None"
      using p by (cases "wk_wake W (ov_waker (wrap c))") (simp add: evals)
  qed
qed

section \<open>Properties\<close>

text \<open>
  C1: no schedule uses a wrap after it was freed.  In every world reachable by any interleaving of
  tasks, kernel and completion threads, no step of any of them touches an \<open>OverlappedWrap\<close> whose
  last reference is gone; and the strong count of every wrap is exactly the number of references the
  task, the free list, the kernel and the completion thread hold, so none is released twice.
\<close>

theorem overlapped_no_use_after_free:
  assumes "waker_ok W" and "aq_ok free" and "aq_items free = []" and "reachable W skip free w"
  shows "world_act W skip act w \<noteq> Fault \<and>
    (case cell (ops w a) of None \<Rightarrow> op_refs (ops w a) = 0 | Some c \<Rightarrow> strong c = op_refs (ops w a))"
proof -
  have inv: "world_inv W skip w" using reachable_inv assms by blast
  then have "op_inv W skip (ops w a)" by (simp add: world_inv_def)
  with world_no_fault [OF inv] show ?thesis by (auto simp: op_inv_defs split: option.splits)
qed

theorem overlapped_no_use_after_free_witness:
  "let w = end_of flag_env True list_queue2 (park @ deliver) in
   world_act flag_env True (Act 0 DropRef) w \<noteq> Fault \<and> map_option strong (cell (ops w 0)) = Some 3"
proof -
  let ?w = "end_of flag_env True list_queue2 (park @ deliver)"
  have "map_option strong (cell (ops ?w 0)) = Some 3" by code_simp
  with overlapped_no_use_after_free [OF flag_env_ok list_queue2_ok
      reachable_end_of [of flag_env True list_queue2 "park @ deliver"], of "Act 0 DropRef" 0]
  show ?thesis by (simp add: Let_def)
qed

text \<open>
  C10: no reference leaks.  Once nothing is in flight (no task is inside an operation and neither the
  kernel nor a completion thread holds a reference), the wraps still allocated are exactly those in
  the free list, and each of them has a single reference: the one handed to the kernel was taken back
  on every path, whether the call was refused, completed inline, completed by packet or cancelled.
\<close>

theorem overlapped_no_leak:
  assumes "waker_ok W" and "aq_ok free" and "aq_items free = []" and "reachable W skip free w"
    and "\<And>a. task (ops w a) = TNone \<or> task (ops w a) = TPooled"
    and "\<And>a. kern_refs (kern (ops w a)) = 0"
  shows "(cell (ops w a) \<noteq> None) = (a \<in> set (aq_items (free_list w))) \<and>
    (case cell (ops w a) of None \<Rightarrow> True | Some c \<Rightarrow> strong c = 1)"
proof -
  have inv: "world_inv W skip w" using reachable_inv assms(1-4) by blast
  then have "op_inv W skip (ops w a)" by (simp add: world_inv_def)
  moreover have "a \<in> set (aq_items (free_list w)) \<longleftrightarrow> task (ops w a) = TPooled"
    using inv by (simp add: world_inv_def)
  ultimately show ?thesis
    using assms(5) [of a] assms(6) [of a] by (auto simp: op_inv_defs split: option.splits)
qed

theorem overlapped_no_leak_witness:
  "let w = end_of flag_env True list_queue2 (Submit # map (Act 0) [CallReturns 0 9, Reclaim] @ [GiveBack 0]) in
   cell (ops w 0) \<noteq> None \<and> aq_items (free_list w) = [0]"
proof -
  let ?as = "Submit # map (Act 0) [CallReturns 0 9, Reclaim] @ [GiveBack 0]"
  let ?w = "end_of flag_env True list_queue2 ?as"
  have ops: "ops ?w = (\<lambda>_. idle_op)(0 := ops ?w 0)" and free: "aq_items (free_list ?w) = [0]"
    and t: "task (ops ?w 0) = TPooled" and k: "kern (ops ?w 0) = KNone"
    by (simp_all add: end_of_def init_world_def list_queue2_def list_queue_new_def op_new_def aq_pop_def
        on_cell_def submitted_op_def may_return_def sync_ec_def arc_clone_def arc_drop_def upd_wrap_def
        give_back_def arc_get_mut_def aq_items_def no_submission_def ERROR_IO_PENDING_def)
  have "task (ops ?w a) = TNone \<or> task (ops ?w a) = TPooled" for a
    using t by (subst ops) (simp add: idle_op_def)
  moreover have "kern_refs (kern (ops ?w a)) = 0" for a
    using k by (subst ops) (simp add: idle_op_def)
  ultimately have "(cell (ops ?w 0) \<noteq> None) = (0 \<in> set (aq_items (free_list ?w)))"
    using overlapped_no_leak [OF flag_env_ok list_queue2_ok
        reachable_end_of [of flag_env True list_queue2 ?as], where a = 0] by blast
  with free show ?thesis by (simp add: Let_def)
qed

text \<open>
  C2: a completion is never observed half-written.  Whenever the \<open>completed\<close> flag of a wrap is
  visible, the error code and the byte count visible with it are those of the packet: the release
  store orders both relaxed stores before the flag.
\<close>

theorem completion_never_torn:
  assumes "waker_ok W" and "aq_ok free" and "aq_items free = []" and "reachable W skip free w"
    and "cell (ops w a) = Some c" and "is_completed (wrap c)"
  shows "ov_err (wrap c) = deliver_status W (sub_status (sub (ops w a))) \<and>
    ov_len (wrap c) = sub_len (sub (ops w a))"
proof -
  have "world_inv W skip w" using reachable_inv assms(1-4) by blast
  then have "op_inv W skip (ops w a)" by (simp add: world_inv_def)
  from op_inv_cell(3) [OF this assms(5)] assms(6) show ?thesis
    by (cases "kern (ops w a)") (auto simp: is_completed_def)
qed

theorem completion_never_torn_witness:
  "let w = end_of flag_env True list_queue2 (park @ deliver) in
   map_option (\<lambda>c. (ov_err (wrap c), ov_len (wrap c))) (cell (ops w 0)) = Some (0, 42)"
proof -
  let ?w = "end_of flag_env True list_queue2 (park @ deliver)"
  have "case cell (ops ?w 0) of None \<Rightarrow> False | Some c \<Rightarrow> is_completed (wrap c)" by code_simp
  then obtain c where c: "cell (ops ?w 0) = Some c" and d: "is_completed (wrap c)"
    by (auto split: option.splits)
  have s: "sub_status (sub (ops ?w 0)) = 0" "sub_len (sub (ops ?w 0)) = 42" by code_simp+
  from completion_never_torn [OF flag_env_ok list_queue2_ok reachable_end_of c d] c s
  show ?thesis by (simp add: Let_def deliver_status_def flag_env_def)
qed

text \<open>
  C3: no wakeup is lost.  A task suspended on an operation whose completion has been delivered (the
  \<open>wake\<close> of \<open>complete\<close> has run) has been notified since it suspended, in every interleaving of
  \<open>poll_complete\<close> with \<open>complete\<close>; while the wake is still to come, the waker it will find is this
  task's.
\<close>

theorem overlapped_no_lost_wakeup:
  assumes "waker_ok W" and "aq_ok free" and "aq_items free = []" and "reachable W skip free w"
    and "task (ops w a) = TParked" and "cell (ops w a) = Some c"
  shows "if woken (kern (ops w a)) then notified (ops w a) else fst (wk_wake W (ov_waker (wrap c)))"
proof -
  have "world_inv W skip w" using reachable_inv assms(1-4) by blast
  from op_inv_cell(4) [OF world_inv_parts(3) [OF this] assms(6)] assms(5)
  show ?thesis by (simp add: wake_inv_def)
qed

theorem overlapped_no_lost_wakeup_witness:
  "let w = end_of flag_env True list_queue2 (park @ deliver) in notified (ops w 0)"
proof -
  let ?w = "end_of flag_env True list_queue2 (park @ deliver)"
  have t: "task (ops ?w 0) = TParked" and k: "woken (kern (ops ?w 0))"
    and "cell (ops ?w 0) \<noteq> None" by code_simp+
  then obtain c where c: "cell (ops ?w 0) = Some c" by blast
  from overlapped_no_lost_wakeup [OF flag_env_ok list_queue2_ok reachable_end_of t c] k
  show ?thesis by (simp add: Let_def)
qed

text \<open>
  C9: what \<open>Op::finish\<close> returns.  In every interleaving, a task that has its result has exactly the
  one \<open>finish\<close> specifies from what the kernel did: the byte count of the call for an inline
  completion, the packet's status and count for a queued one, the call's own code for a refusal; and
  by then the kernel no longer holds the operation, so the caller's buffer may be reused.
\<close>

theorem op_finish_refined:
  assumes "waker_ok W" and "aq_ok free" and "aq_items free = []" and "reachable W skip free w"
    and "task (ops w a) = TGiveBack r"
  shows "r = op_finish W skip (sub (ops w a)) \<and> \<not> kernel_holds (kern (ops w a))"
proof -
  have "world_inv W skip w" using reachable_inv assms(1-4) by blast
  from world_inv_parts(3) [OF this, of a] assms(5)
  have "pair_inv W skip (sub (ops w a)) (TGiveBack r) (kern (ops w a))" by (simp add: op_inv_def)
  then show ?thesis using finished_not_held by (auto split: if_splits)
qed

theorem op_finish_refined_witness:
  "let w = end_of flag_env True list_queue2 (Submit # map (Act 0) [CallReturns 5 0, Reclaim]) in
   task (ops w 0) = TGiveBack (Inl (Win32 5)) \<and> op_finish flag_env True (sub (ops w 0)) = Inl (Win32 5)"
proof -
  let ?w = "end_of flag_env True list_queue2 (Submit # map (Act 0) [CallReturns 5 0, Reclaim])"
  have t: "task (ops ?w 0) = TGiveBack (Inl (Win32 5))" by code_simp
  with op_finish_refined [OF flag_env_ok list_queue2_ok reachable_end_of t] show ?thesis
    by (simp add: Let_def)
qed

text \<open>
  C15: cancellation is safe.  When the drop of a pending \<open>AsyncOverlappedFuture\<close> is over, and
  from then on until the wrap is used for another operation, the kernel has relinquished the
  operation: the request buffer the future borrowed is not written after the drop returned.
\<close>

theorem cancel_waits_for_kernel:
  assumes "waker_ok W" and "aq_ok free" and "aq_items free = []" and "reachable W skip free w"
    and "task (ops w a) = TDropDone \<or> task (ops w a) = TNone \<or> task (ops w a) = TPooled"
  shows "\<not> kernel_holds (kern (ops w a)) \<and>
    world_act W skip (Act a (KernelPost st n)) w = Disabled"
proof -
  have "world_inv W skip w" using reachable_inv assms(1-4) by blast
  from world_inv_parts(3) [OF this, of a]
  have "pair_inv W skip (sub (ops w a)) (task (ops w a)) (kern (ops w a))" by (simp add: op_inv_def)
  with assms(5) have "\<not> kernel_holds (kern (ops w a))" using finished_not_held by auto
  moreover from this have "kern (ops w a) \<noteq> KQueued" by auto
  ultimately show ?thesis by (simp add: on_cell_def)
qed

theorem cancel_waits_for_kernel_witness:
  "let w = end_of flag_env True list_queue2
      (park @ map (Act 0) [CancelFuture, DropCheck] @ butlast deliver @ [Act 0 Spin]) in
   task (ops w 0) = TDropDone \<and> \<not> kernel_holds (kern (ops w 0))"
proof -
  let ?w = "end_of flag_env True list_queue2
      (park @ map (Act 0) [CancelFuture, DropCheck] @ butlast deliver @ [Act 0 Spin])"
  have t: "task (ops ?w 0) = TDropDone" by code_simp
  with cancel_waits_for_kernel [OF flag_env_ok list_queue2_ok reachable_end_of, where a = 0]
  show ?thesis by (simp add: Let_def)
qed

text \<open>
  C16: a posted packet brings a waiting operation to its end.  From any reachable world in which the
  packet of an operation is posted, the completion thread's own steps are enabled one after the other;
  after them a suspended task, polled again, gets the result \<open>finish\<close> specifies, and a task spinning
  in \<open>block_until_complete\<close> leaves its loop at the next load and frees the wrap.
\<close>

theorem completion_reaches_waiter:
  assumes "waker_ok W" and "aq_ok free" and "aq_items free = []" and "reachable W skip free w"
    and "ops w a = s" and "kern s = KPosted"
  shows "(task s = TParked \<longrightarrow>
      (\<exists>t. op_run W skip (completion_steps @ [Repoll, PollLoad1, ReadResult]) s = Next t \<and>
           task t = TGiveBack (op_finish W skip (sub s)))) \<and>
    (task s = TSpin \<longrightarrow>
      (\<exists>t. op_run W skip (completion_steps @ [Spin, DropHandles]) s = Next t \<and>
           task t = TNone \<and> cell t = None))"
proof -
  have "world_inv W skip w" using reachable_inv assms(1-4) by blast
  then have "op_inv W skip s" using world_inv_parts(3) assms(5) by blast
  then show ?thesis using assms(6) by (rule posted_reaches_waiter)
qed

theorem completion_reaches_waiter_witness:
  "let s = ops (end_of flag_env True list_queue2 (park @ [Act 0 (KernelPost 0 42)])) 0 in
   \<exists>t. op_run flag_env True (completion_steps @ [Repoll, PollLoad1, ReadResult]) s = Next t \<and>
       task t = TGiveBack (Inr 42)"
proof -
  let ?w = "end_of flag_env True list_queue2 (park @ [Act 0 (KernelPost 0 42)])"
  have k: "kern (ops ?w 0) = KPosted" and t: "task (ops ?w 0) = TParked"
    and r: "op_finish flag_env True (sub (ops ?w 0)) = Inr 42" by code_simp+
  from completion_reaches_waiter [OF flag_env_ok list_queue2_ok reachable_end_of refl k] t r show ?thesis by (simp add: Let_def)
qed

text \<open>
  the small steps are the code.  The completion thread's steps without interference store what
  \<open>deliver_completion\<close> stores and notify when it wakes; the three loads and stores of a poll give
  the answer of \<open>poll_complete\<close>.
\<close>

lemma small_steps_refine_operations:
  assumes "cell s = Some c" and "2 \<le> strong c"
  shows "(kern s = KPosted \<longrightarrow>
      op_run W skip completion_steps s = Next (s\<lparr>
        kern := KDone (deliver_status W (ov_inner (wrap c))) (sub_len (sub s)),
        notified := notified s \<or> fst (deliver_completion W (sub_len (sub s)) (wrap c)),
        cell := Some (c\<lparr>strong := strong c - 1, wrap := snd (deliver_completion W (sub_len (sub s)) (wrap c))\<rparr>)\<rparr>)) \<and>
    (task s = TPoll1 \<longrightarrow>
      (case poll_complete W (wrap c) id of
         (Pending, w) \<Rightarrow> op_run W skip [PollLoad1, PollRegister, PollLoad2] s =
            Next (s\<lparr>task := TParked, cell := Some (c\<lparr>wrap := w\<rparr>)\<rparr>)
       | (Ready r, w) \<Rightarrow> op_run W skip [PollLoad1, ReadResult] s =
            Next (s\<lparr>task := TGiveBack r, cell := Some (c\<lparr>strong := strong c - 1, wrap := w\<rparr>)\<rparr>)))"
  by (rule conjI [OF completion_steps_run [OF assms] poll_steps_run [OF assms]])

text \<open>
  The operation pool is sound.  However takes and give-backs are interleaved, every wrap handed
  out is as new with a single owner, a wrap somebody else still references is not taken back, and
  the pool never exceeds its capacity.
\<close>

lemma op_pool_sound:
  assumes "aq_new_ok new_queue"
    and "pool_run (\<lambda>_ :: unit. op_pool_take W) (op_pool_give_back W) calls (op_pool_new new_queue slots) = (given, p)"
  shows "list_all (arc_pristine W) given \<and> list_all (arc_pristine W) (aq_items p) \<and>
    length (aq_items p) \<le> max slots 1 \<and> (\<forall>c. 1 < strong c \<longrightarrow> op_pool_give_back W c p = p)"
proof -
  let ?p = "op_pool_new new_queue slots"
  have cap: "aq_cap ?p = max slots 1" and inv: "op_pool_inv W ?p"
    using assms(1) by (simp_all add: aq_new_ok_def op_pool_inv_def op_pool_new_def)
  show ?thesis
    using op_recycler.run_keeps [OF inv _ assms(2)] op_recycler.run_stock [OF inv _ assms(2)] cap
    by (simp add: list_all_iff op_pool_inv_def op_pool_give_back_def arc_get_mut_def)
qed

end
