(* ===== verification/Httpsys_Iocp.thy ===== *)
theory Httpsys_Iocp
  imports Httpsys_Ffi Httpsys_Overlapped
begin

text \<open>
  \<open>crates/httpsys/src/iocp.rs\<close>: the completion port and the threads that drain it.

  Three views of the same code.  The calls \<open>IoPort::new\<close>, \<open>associate\<close> and \<open>drop\<close> make, as
  computations over the history of calls.  The body of one turn of \<open>completion_loop\<close> as a function
  on the world of overlapped operations.  And the port as a machine in which the completion threads,
  the kernel and the thread that drops the port interleave.
\<close>

definition BATCH :: nat where
  "BATCH = 64"

definition SHUTDOWN_KEY :: u64 where
  "SHUTDOWN_KEY = - 1"

definition INVALID_HANDLE_VALUE :: u64 where
  "INVALID_HANDLE_VALUE = - 1"

definition FILE_SKIP_COMPLETION_PORT_ON_SUCCESS :: u8 where
  "FILE_SKIP_COMPLETION_PORT_ON_SUCCESS = 0x1"

definition FILE_SKIP_SET_EVENT_ON_HANDLE :: u8 where
  "FILE_SKIP_SET_EVENT_ON_HANDLE = 0x2"

section \<open>IoPort\<close>

record IoPort =
  port :: u64
  threads :: "nat list"

definition io_port_drop :: "kernel \<Rightarrow> IoPort \<Rightarrow> unit ffi" where
  "io_port_drop K p =
     do { u \<leftarrow> for_each (\<lambda>_. call_ignored K (PostQueuedCompletionStatus (port p) 0 SHUTDOWN_KEY))
            [0..<length (threads p)];
          v \<leftarrow> for_each (\<lambda>t. call_ignored K (JoinThread t)) (threads p);
          call_ignored K (CloseHandle (port p)) }"

text \<open>The spawning loop of \<open>new\<close>; \<open>port_guard\<close> is dropped when a spawn fails.\<close>

fun spawn_threads :: "kernel \<Rightarrow> nat list \<Rightarrow> IoPort \<Rightarrow> IoPort result ffi" where
  "spawn_threads K [] port_guard = State_Monad.return (Inr port_guard)"
| "spawn_threads K (i # is) port_guard =
     do { r \<leftarrow> call K (SpawnThread i);
          if rc r = 0 then spawn_threads K is (port_guard\<lparr>threads := threads port_guard @ [i]\<rparr>)
          else do { u \<leftarrow> io_port_drop K port_guard;
                    State_Monad.return (Inl (Win32 (case os_error r of Some c \<Rightarrow> c | None \<Rightarrow> 8))) } }"

definition io_port_new :: "kernel \<Rightarrow> nat \<Rightarrow> IoPort result ffi" where
  "io_port_new K n =
     (let n = max n 1 in
      try_bind (hresult_call K (CreateIoCompletionPort INVALID_HANDLE_VALUE None 0 (as_u32 n)))
        (\<lambda>p. spawn_threads K [0..<n] \<lparr>port = p, threads = []\<rparr>))"

definition associate :: "kernel \<Rightarrow> IoPort \<Rightarrow> u64 \<Rightarrow> bool result ffi" where
  "associate K p file =
     try_bind (hresult_call K (CreateIoCompletionPort file (Some (port p)) file 0)) (\<lambda>_.
       do { r \<leftarrow> call K (SetFileCompletionNotificationModes file
              (FILE_SKIP_COMPLETION_PORT_ON_SUCCESS OR FILE_SKIP_SET_EVENT_ON_HANDLE));
            State_Monad.return (Inr (rc r = 0)) })"

definition port_held :: "IoPort \<Rightarrow> resource multiset" where
  "port_held p = add_mset (RPort (port p)) (mset (map RThread (threads p)))"

subsection \<open>The port is a guard\<close>

lemma live_posts:
  "live (snd (run_state (for_each (\<lambda>_. call_ignored K (PostQueuedCompletionStatus h n k)) xs) l)) = live l"
  by (induction xs arbitrary: l) (simp_all add: live_step_def)

lemma live_joins:
  "live (snd (run_state (for_each (\<lambda>t. call_ignored K (JoinThread t)) ts) l)) =
     live l - mset (map RThread ts)"
  by (induction ts arbitrary: l) (simp_all add: live_step_def)

lemma io_port_drop_live: "live (snd (run_state (io_port_drop K p) l)) = live l - port_held p"
proof -
  let ?posts = "for_each (\<lambda>_. call_ignored K (PostQueuedCompletionStatus (port p) 0 SHUTDOWN_KEY))
      [0..<length (threads p)]"
  let ?joins = "for_each (\<lambda>t. call_ignored K (JoinThread t)) (threads p)"
  obtain l1 where l1: "run_state ?posts l = ((), l1)" by (cases "run_state ?posts l") simp
  obtain l2 where l2: "run_state ?joins l1 = ((), l2)" by (cases "run_state ?joins l1") simp
  have "live l1 = live l" using live_posts [of K "port p" 0 SHUTDOWN_KEY "[0..<length (threads p)]" l] l1
    by simp
  moreover have "live l2 = live l1 - mset (map RThread (threads p))" using live_joins [of K "threads p" l1] l2
    by simp
  ultimately show ?thesis
    by (simp add: io_port_drop_def l1 l2 live_step_def port_held_def)
qed

lemma spawn_threads_live:
  assumes "run_state (spawn_threads K is g) l = (r, l')" and "live l = port_held g + m"
  shows "case r of Inr p \<Rightarrow> live l' = port_held p + m \<and> port p = port g \<and> threads p = threads g @ is
    | Inl e \<Rightarrow> live l' = m"
  using assms
proof (induction "is" arbitrary: g l)
  case Nil
  then show ?case by auto
next
  case (Cons i "is")
  show ?case
  proof (cases "rc (K l (SpawnThread i)) = 0")
    case True
    let ?g = "g\<lparr>threads := threads g @ [i]\<rparr>" and ?l = "l @ [(SpawnThread i, K l (SpawnThread i))]"
    have "live ?l = port_held ?g + m"
      using Cons.prems(2) True by (simp add: live_step_def port_held_def)
    moreover have "run_state (spawn_threads K is ?g) ?l = (r, l')" using Cons.prems(1) True by simp
    ultimately show ?thesis using Cons.IH [of ?g ?l] by (auto split: sum.splits)
  next
    case False
    let ?l = "l @ [(SpawnThread i, K l (SpawnThread i))]"
    have "live ?l = port_held g + m" using Cons.prems(2) False by (simp add: live_step_def)
    moreover have "l' = snd (run_state (io_port_drop K g) ?l)" and "isl r"
      using Cons.prems(1) False by (auto split: prod.splits)
    ultimately show ?thesis using io_port_drop_live [of K g ?l] by (auto simp: isl_def)
  qed
qed

lemma io_port_new_live:
  assumes "run_state (io_port_new K n) l = (r, l')"
  shows "case r of Inr p \<Rightarrow> live l' = port_held p + live l \<and> threads p = [0..<max n 1] | Inl e \<Rightarrow> live l' = live l"
proof -
  let ?c = "CreateIoCompletionPort INVALID_HANDLE_VALUE None 0 (as_u32 (max n 1))"
  let ?l = "l @ [(?c, K l ?c)]"
  show ?thesis
  proof (cases "rc (K l ?c) = 0")
    case True
    have "live ?l = port_held \<lparr>port = out (K l ?c), threads = []\<rparr> + live l"
      using True by (simp add: live_step_def port_held_def)
    moreover have "run_state (spawn_threads K [0..<max n 1] \<lparr>port = out (K l ?c), threads = []\<rparr>) ?l = (r, l')"
      using assms True by (simp add: io_port_new_def ffi_runs Let_def)
    ultimately show ?thesis using spawn_threads_live by (fastforce split: sum.splits)
  next
    case False
    then show ?thesis using assms by (auto simp: io_port_new_def ffi_runs Let_def live_step_def)
  qed
qed

interpretation io_port: raii "io_port_new K n" "io_port_drop K" port_held for K :: kernel and n :: nat
proof unfold_locales
  show "run_state (io_port_new K n) l = (Inr g, l') \<Longrightarrow> live l' = port_held g + live l" for l g l'
    using io_port_new_live by fastforce
  show "run_state (io_port_new K n) l = (Inl e, l') \<Longrightarrow> live l' = live l" for l e l'
    using io_port_new_live by fastforce
  show "live_after (io_port_drop K g) l = live l - port_held g" for g l
    by (simp add: live_after_def io_port_drop_live)
qed

lemma associate_live [simp]: "live_after (associate K p file) l = live l"
  by (simp add: live_after_def associate_def ffi_runs live_step_def)

section \<open>One batch of completion_loop\<close>

record OVERLAPPED_ENTRY =
  lpCompletionKey :: u64
  lpOverlapped :: nat
  dwNumberOfBytesTransferred :: u32

definition is_shutdown :: "OVERLAPPED_ENTRY \<Rightarrow> bool" where
  "is_shutdown e \<longleftrightarrow> lpCompletionKey e = SHUTDOWN_KEY"

text \<open>
  The \<open>for\<close> loop over the dequeued entries, on the world of overlapped operations: a sentinel only
  sets \<open>stop\<close>, any other entry is delivered to the operation it names.
\<close>

fun completion_batch ::
  "'w ov_env \<Rightarrow> bool \<Rightarrow> OVERLAPPED_ENTRY list \<Rightarrow> bool \<Rightarrow> ('w, 'q) world \<Rightarrow> (bool \<times> ('w, 'q) world) outcome"
where
  "completion_batch W skip [] stop w = Next (stop, w)"
| "completion_batch W skip (e # es) stop w =
     (if is_shutdown e then completion_batch W skip es True w
      else case world_run W skip (map (Act (lpOverlapped e)) completion_steps) w of
        Next w' \<Rightarrow> completion_batch W skip es stop w'
      | Disabled \<Rightarrow> Disabled
      | Fault \<Rightarrow> Fault)"

lemma world_run_map_act:
  "world_run W skip (map (Act a) as) w =
     (case op_run W skip as (ops w a) of
        Next t \<Rightarrow> Next (w\<lparr>ops := (ops w)(a := t)\<rparr>) | Disabled \<Rightarrow> Disabled | Fault \<Rightarrow> Fault)"
  by (induction as arbitrary: w) (auto split: outcome.splits)

lemma posted_delivers:
  assumes inv: "op_inv W skip s" and k: "kern s = KPosted"
  shows "\<exists>t. op_run W skip completion_steps s = Next t \<and>
    kern t = KDone (deliver_status W (sub_status (sub s))) (sub_len (sub s))"
proof -
  obtain c where c: "cell s = Some c"
    using inv k by (cases "cell s") (auto simp: op_inv_defs)
  note f = op_inv_cell [OF inv c]
  have "1 \<le> task_refs (task s)" using f(2) k by (cases "task s") auto
  then have "2 \<le> strong c" using f(1) k by (simp add: op_refs_def)
  from completion_steps_run [OF c this] k f(3) show ?thesis by simp
qed

lemma world_inv_run:
  "world_inv W skip w \<Longrightarrow> waker_ok W \<Longrightarrow> world_run W skip as w = Next w' \<Longrightarrow> world_inv W skip w'"
  by (induction as arbitrary: w) (auto split: outcome.splits dest: world_inv_step)

lemma completion_delivers:
  assumes inv: "world_inv W skip w" and "waker_ok W" and "kern (ops w a) = KPosted"
  shows "\<exists>t. world_run W skip (map (Act a) completion_steps) w = Next (w\<lparr>ops := (ops w)(a := t)\<rparr>) \<and>
    world_inv W skip (w\<lparr>ops := (ops w)(a := t)\<rparr>) \<and>
    kern t = KDone (deliver_status W (sub_status (sub (ops w a)))) (sub_len (sub (ops w a)))"
proof -
  from posted_delivers [OF world_inv_parts(3) [OF inv] assms(3)] obtain t where
    t: "op_run W skip completion_steps (ops w a) = Next t"
    and "kern t = KDone (deliver_status W (sub_status (sub (ops w a)))) (sub_len (sub (ops w a)))" by blast
  moreover from t have "world_run W skip (map (Act a) completion_steps) w = Next (w\<lparr>ops := (ops w)(a := t)\<rparr>)"
    by (simp add: world_run_map_act)
  ultimately show ?thesis using world_inv_run [OF inv assms(2)] by blast
qed

lemma completion_batch_delivers:
  assumes "world_inv W skip w" and "waker_ok W"
    and "distinct (map lpOverlapped (filter (\<lambda>e. \<not> is_shutdown e) es))"
    and "\<And>e. e \<in> set es \<Longrightarrow> \<not> is_shutdown e \<Longrightarrow> kern (ops w (lpOverlapped e)) = KPosted"
  shows "\<exists>w'. completion_batch W skip es stop w = Next (stop \<or> list_ex is_shutdown es, w') \<and>
    (\<forall>e \<in> set es. \<not> is_shutdown e \<longrightarrow> kern (ops w' (lpOverlapped e)) =
       KDone (deliver_status W (sub_status (sub (ops w (lpOverlapped e))))) (sub_len (sub (ops w (lpOverlapped e))))) \<and>
    (\<forall>a. a \<notin> lpOverlapped ` set (filter (\<lambda>e. \<not> is_shutdown e) es) \<longrightarrow> ops w' a = ops w a)"
  using assms
proof (induction es arbitrary: w stop)
  case Nil
  then show ?case by simp
next
  case (Cons e es)
  show ?case
  proof (cases "is_shutdown e")
    case True
    have "distinct (map lpOverlapped (filter (\<lambda>e. \<not> is_shutdown e) es))" using Cons.prems(3) True by simp
    moreover have "kern (ops w (lpOverlapped x)) = KPosted" if "x \<in> set es" "\<not> is_shutdown x" for x
      using Cons.prems(4) [of x] that by simp
    ultimately show ?thesis using Cons.IH [OF Cons.prems(1,2), of True] True by simp
  next
    case False
    let ?a = "lpOverlapped e"
    have "kern (ops w ?a) = KPosted" using Cons.prems(4) False by simp
    from completion_delivers [OF Cons.prems(1,2) this] obtain t where
      run: "world_run W skip (map (Act ?a) completion_steps) w = Next (w\<lparr>ops := (ops w)(?a := t)\<rparr>)"
      and inv: "world_inv W skip (w\<lparr>ops := (ops w)(?a := t)\<rparr>)"
      and kt: "kern t = KDone (deliver_status W (sub_status (sub (ops w ?a)))) (sub_len (sub (ops w ?a)))"
      by blast
    let ?w = "w\<lparr>ops := (ops w)(?a := t)\<rparr>"
    have d: "?a \<notin> lpOverlapped ` set (filter (\<lambda>e. \<not> is_shutdown e) es)"
      and d': "distinct (map lpOverlapped (filter (\<lambda>e. \<not> is_shutdown e) es))"
      using Cons.prems(3) False by auto
    have same: "ops ?w (lpOverlapped x) = ops w (lpOverlapped x)" if "x \<in> set es" "\<not> is_shutdown x" for x
      using that d by (auto simp: image_iff)
    have p: "kern (ops ?w (lpOverlapped x)) = KPosted" if "x \<in> set es" "\<not> is_shutdown x" for x
      using same [OF that] Cons.prems(4) [of x] that by simp
    from Cons.IH [OF inv Cons.prems(2) d' p, of stop]
    obtain w' where w': "completion_batch W skip es stop ?w = Next (stop \<or> list_ex is_shutdown es, w')"
      and fin: "\<forall>x \<in> set es. \<not> is_shutdown x \<longrightarrow> kern (ops w' (lpOverlapped x)) =
        KDone (deliver_status W (sub_status (sub (ops ?w (lpOverlapped x))))) (sub_len (sub (ops ?w (lpOverlapped x))))"
      and rest: "\<forall>a. a \<notin> lpOverlapped ` set (filter (\<lambda>e. \<not> is_shutdown e) es) \<longrightarrow> ops w' a = ops ?w a"
      by blast
    have "completion_batch W skip (e # es) stop w = Next (stop \<or> list_ex is_shutdown (e # es), w')"
      using w' False run by simp
    moreover have "kern (ops w' ?a) = kern t" using rest d by simp
    ultimately show ?thesis using fin same kt rest False by (intro exI [of _ w']) auto
  qed
qed

section \<open>The port under concurrency\<close>

text \<open>A completion thread waits in \<open>GetQueuedCompletionStatusEx\<close>, works through a batch, or has
  returned; the owner of the port serves, or is in \<open>drop\<close>: posting, joining, done.\<close>

datatype thread_pc = Waiting | Batch "OVERLAPPED_ENTRY list" bool | Exited

datatype owner_pc = Serving | Posting nat | Joining nat | Closed

text \<open>\<open>posted\<close> and \<open>handled\<close> record the packets of operations that were queued and that were
  delivered; \<open>failed_posts\<close> counts the sentinels the kernel refused.\<close>

record port_state =
  pq :: "OVERLAPPED_ENTRY list"
  thr :: "thread_pc list"
  owner :: owner_pc
  posted :: "OVERLAPPED_ENTRY list"
  handled :: "OVERLAPPED_ENTRY list"
  failed_posts :: nat

datatype port_action =
    KernelPosts OVERLAPPED_ENTRY
  | DequeueBatch nat nat | DequeueFails nat | ProcessEntry nat | EndBatch nat
  | StartDrop | PostSentinel bool | JoinNext

definition sentinel :: OVERLAPPED_ENTRY where
  "sentinel = \<lparr>lpCompletionKey = SHUTDOWN_KEY, lpOverlapped = 0, dwNumberOfBytesTransferred = 0\<rparr>"

fun port_act :: "port_action \<Rightarrow> port_state \<Rightarrow> port_state option" where
  "port_act (KernelPosts e) s =
     (if \<not> is_shutdown e \<and> owner s \<noteq> Closed then Some (s\<lparr>pq := pq s @ [e], posted := posted s @ [e]\<rparr>)
      else None)"
| "port_act (DequeueBatch i n) s =
     (if i < length (thr s) \<and> thr s ! i = Waiting \<and> owner s \<noteq> Closed \<and>
         1 \<le> n \<and> n \<le> BATCH \<and> n \<le> length (pq s)
      then Some (s\<lparr>pq := drop n (pq s), thr := (thr s)[i := Batch (take n (pq s)) False]\<rparr>) else None)"
| "port_act (DequeueFails i) s =
     (if i < length (thr s) \<and> thr s ! i = Waiting \<and> owner s = Closed
      then Some (s\<lparr>thr := (thr s)[i := Exited]\<rparr>) else None)"
| "port_act (ProcessEntry i) s =
     (if i < length (thr s) then
        (case thr s ! i of
           Batch (e # es) stop \<Rightarrow>
             if is_shutdown e then Some (s\<lparr>thr := (thr s)[i := Batch es True]\<rparr>)
             else Some (s\<lparr>thr := (thr s)[i := Batch es stop], handled := handled s @ [e]\<rparr>)
         | _ \<Rightarrow> None)
      else None)"
| "port_act (EndBatch i) s =
     (if i < length (thr s) then
        (case thr s ! i of
           Batch [] stop \<Rightarrow> Some (s\<lparr>thr := (thr s)[i := (if stop then Exited else Waiting)]\<rparr>)
         | _ \<Rightarrow> None)
      else None)"
| "port_act StartDrop s =
     (if owner s = Serving then Some (s\<lparr>owner := Posting (length (thr s))\<rparr>) else None)"
| "port_act (PostSentinel ok) s =
     (case owner s of
        Posting (Suc k) \<Rightarrow>
          Some (if ok then s\<lparr>owner := Posting k, pq := pq s @ [sentinel]\<rparr>
                else s\<lparr>owner := Posting k, failed_posts := Suc (failed_posts s)\<rparr>)
      | Posting 0 \<Rightarrow> Some (s\<lparr>owner := Joining 0\<rparr>)
      | _ \<Rightarrow> None)"
| "port_act JoinNext s =
     (case owner s of
        Joining i \<Rightarrow>
          if i < length (thr s) then (if thr s ! i = Exited then Some (s\<lparr>owner := Joining (Suc i)\<rparr>) else None)
          else if i = length (thr s) then Some (s\<lparr>owner := Closed\<rparr>) else None
      | _ \<Rightarrow> None)"

definition port_init :: "nat \<Rightarrow> port_state" where
  "port_init n = \<lparr>pq = [], thr = replicate (max n 1) Waiting, owner = Serving, posted = [], handled = [],
     failed_posts = 0\<rparr>"

inductive port_reachable :: "nat \<Rightarrow> port_state \<Rightarrow> bool" for n where
  init: "port_reachable n (port_init n)"
| step: "port_reachable n s \<Longrightarrow> port_act a s = Some s' \<Longrightarrow> port_reachable n s'"

text \<open>What a thread has dequeued and not yet looked at.\<close>

fun in_hand :: "thread_pc \<Rightarrow> OVERLAPPED_ENTRY list" where
  "in_hand (Batch es stop) = es"
| "in_hand _ = []"

definition pending :: "port_state \<Rightarrow> OVERLAPPED_ENTRY multiset" where
  "pending s = filter_mset (\<lambda>e. \<not> is_shutdown e) (mset (pq s) + (\<Sum>t \<in># mset (thr s). mset (in_hand t)))"

definition port_inv :: "port_state \<Rightarrow> bool" where
  "port_inv s \<longleftrightarrow>
     mset (posted s) = mset (handled s) + pending s \<and>
     (case owner s of
        Joining i \<Rightarrow> i \<le> length (thr s) \<and> (\<forall>j < i. thr s ! j = Exited)
      | Closed \<Rightarrow> list_all (\<lambda>t. t = Exited) (thr s)
      | _ \<Rightarrow> True)"

lemma sum_mset_update:
  fixes f :: "'a \<Rightarrow> 'b multiset"
  assumes "i < length xs"
  shows "(\<Sum>t \<in># mset (xs[i := y]). f t) + f (xs ! i) = (\<Sum>t \<in># mset xs. f t) + f y"
proof -
  let ?M = "mset xs - {#xs ! i#}"
  have "mset xs = add_mset (xs ! i) ?M" using assms by simp
  then have "(\<Sum>t \<in># mset xs. f t) = f (xs ! i) + (\<Sum>t \<in># ?M. f t)"
    by (metis image_mset_add_mset sum_mset.insert)
  moreover have "(\<Sum>t \<in># mset (xs[i := y]). f t) = f y + (\<Sum>t \<in># ?M. f t)"
    by (simp add: mset_update [OF assms])
  ultimately show ?thesis by (simp add: ac_simps)
qed

lemma mset_exchange:
  fixes a :: "'a multiset"
  assumes "a + h = b + y" and "p + y + x = q + h"
  shows "q + b = p + a + x"
proof (rule multiset_eqI)
  fix z
  have "count a z + count h z = count b z + count y z" using assms(1) by (metis count_union)
  moreover have "count p z + count y z + count x z = count q z + count h z"
    using assms(2) by (metis count_union)
  ultimately show "count (q + b) z = count (p + a + x) z" by simp
qed

lemma pending_update:
  assumes "i < length (thr s)" and "thr t = (thr s)[i := y]"
    and "mset (pq t) + mset (in_hand y) + X = mset (pq s) + mset (in_hand (thr s ! i))"
  shows "pending s = pending t + filter_mset (\<lambda>e. \<not> is_shutdown e) X"
proof -
  let ?S = "\<lambda>ts. \<Sum>t \<in># mset ts. mset (in_hand t)"
  have "?S (thr t) + mset (in_hand (thr s ! i)) = ?S (thr s) + mset (in_hand y)"
    using sum_mset_update [OF assms(1), of "\<lambda>t. mset (in_hand t)" y] assms(2) by simp
  from this assms(3) have "mset (pq s) + ?S (thr s) = mset (pq t) + ?S (thr t) + X"
    by (rule mset_exchange)
  then show ?thesis unfolding pending_def by simp
qed

lemma mset_drop_take: "mset (drop n xs) + mset (take n xs) = mset xs"
  by (metis append_take_drop_id mset_append union_commute)

text \<open>An exited thread never runs again; the owner's progress is kept.\<close>

lemma port_act_owner:
  assumes "port_inv s" and "port_act a s = Some t"
  shows "case owner t of
        Joining i \<Rightarrow> i \<le> length (thr t) \<and> (\<forall>j < i. thr t ! j = Exited)
      | Closed \<Rightarrow> list_all (\<lambda>t. t = Exited) (thr t)
      | _ \<Rightarrow> True"
proof (cases a)
  case JoinNext
  then show ?thesis using assms
    by (auto simp: port_inv_def less_Suc_eq list_all_length split: owner_pc.splits if_splits)
next
  case (PostSentinel ok)
  then show ?thesis using assms by (cases ok) (auto simp: port_inv_def split: owner_pc.splits nat.splits)
next
  case StartDrop
  then show ?thesis using assms by (auto split: if_splits)
next
  case (KernelPosts e)
  then show ?thesis using assms by (auto simp: port_inv_def split: if_splits owner_pc.splits)
next
  case (DequeueBatch i n)
  then show ?thesis using assms
    by (auto simp: port_inv_def nth_list_update split: if_splits owner_pc.splits)
next
  case (DequeueFails i)
  then show ?thesis using assms
    by (auto simp: port_inv_def nth_list_update list_all_length split: if_splits owner_pc.splits)
next
  case (ProcessEntry i)
  then show ?thesis using assms
    by (auto simp: port_inv_def nth_list_update list_all_length
        split: if_splits owner_pc.splits thread_pc.splits list.splits)
next
  case (EndBatch i)
  then show ?thesis using assms
    by (auto simp: port_inv_def nth_list_update list_all_length
        split: if_splits owner_pc.splits thread_pc.splits list.splits)
qed

lemma port_act_packets:
  assumes "port_act a s = Some t" and "mset (posted s) = mset (handled s) + pending s"
  shows "mset (posted t) = mset (handled t) + pending t"
proof (cases a)
  case (DequeueBatch i n)
  then have "pending s = pending t + filter_mset (\<lambda>e. \<not> is_shutdown e) {#}"
    using assms(1) by (intro pending_update [of i _ _ "Batch (take n (pq s)) False"])
      (auto simp: mset_drop_take split: if_splits)
  with assms DequeueBatch show ?thesis by (auto split: if_splits)
next
  case (DequeueFails i)
  then have "pending s = pending t + filter_mset (\<lambda>e. \<not> is_shutdown e) {#}"
    using assms(1) by (intro pending_update [of i _ _ Exited]) (auto split: if_splits)
  with assms DequeueFails show ?thesis by (auto split: if_splits)
next
  case (EndBatch i)
  then obtain st where th: "i < length (thr s)" "thr s ! i = Batch [] st"
    and t: "t = s\<lparr>thr := (thr s)[i := (if st then Exited else Waiting)]\<rparr>"
    using assms(1) by (auto split: if_splits thread_pc.splits list.splits)
  then have "pending s = pending t + filter_mset (\<lambda>e. \<not> is_shutdown e) {#}"
    by (intro pending_update [of i _ _ "if st then Exited else Waiting"]) auto
  with assms t show ?thesis by simp
next
  case (ProcessEntry i)
  then obtain e es st where th: "i < length (thr s)" "thr s ! i = Batch (e # es) st"
    and t: "t = (if is_shutdown e then s\<lparr>thr := (thr s)[i := Batch es True]\<rparr>
      else s\<lparr>thr := (thr s)[i := Batch es st], handled := handled s @ [e]\<rparr>)"
    using assms(1) by (auto split: if_splits thread_pc.splits list.splits)
  then have "pending s = pending t + filter_mset (\<lambda>e. \<not> is_shutdown e) {#e#}"
    by (intro pending_update [of i _ _ "Batch es (if is_shutdown e then True else st)"]) auto
  with assms t show ?thesis by auto
qed (use assms in \<open>auto simp: pending_def sentinel_def is_shutdown_def split: if_splits owner_pc.splits nat.splits\<close>)

lemma port_inv_reachable: "port_reachable n s \<Longrightarrow> port_inv s"
proof (induction rule: port_reachable.induct)
  case init
  show ?case by (simp add: port_inv_def port_init_def pending_def)
next
  case (step s a t)
  have "mset (posted t) = mset (handled t) + pending t"
    using port_act_packets [OF step.hyps(2)] step.IH by (simp add: port_inv_def)
  with port_act_owner [OF step.IH step.hyps(2)] show ?case by (simp add: port_inv_def)
qed

subsection \<open>Shutting down\<close>

text \<open>The steps of the threads and of \<open>drop\<close>, as opposed to the arrival of packets and the
  decision to drop.\<close>

fun internal :: "port_action \<Rightarrow> bool" where
  "internal (KernelPosts e) = False"
| "internal StartDrop = False"
| "internal _ = True"

fun thread_weight :: "thread_pc \<Rightarrow> nat" where
  "thread_weight Waiting = 1"
| "thread_weight (Batch es stop) = 2 + length es"
| "thread_weight Exited = 0"

fun owner_weight :: "nat \<Rightarrow> owner_pc \<Rightarrow> nat" where
  "owner_weight m Serving = 0"
| "owner_weight m (Posting k) = 4 * k + m + 2"
| "owner_weight m (Joining i) = Suc m - i"
| "owner_weight m Closed = 0"

definition port_weight :: "port_state \<Rightarrow> nat" where
  "port_weight s = owner_weight (length (thr s)) (owner s) + 3 * length (pq s) + sum_list (map thread_weight (thr s))"

lemma sum_list_map_update:
  fixes f :: "'a \<Rightarrow> nat"
  shows "i < length xs \<Longrightarrow> sum_list (map f (xs[i := y])) + f (xs ! i) = sum_list (map f xs) + f y"
proof (induction xs arbitrary: i)
  case Nil
  then show ?case by simp
next
  case (Cons x xs)
  then show ?case by (cases i) auto
qed

text \<open>Every internal step makes the port lighter, so no schedule of them runs forever.\<close>

lemma internal_step_lighter:
  assumes "port_inv s" and "port_act a s = Some t" and "internal a"
  shows "port_weight t < port_weight s"
proof (cases a)
  case (DequeueBatch i n)
  then have i: "i < length (thr s)" "thr s ! i = Waiting" and n: "1 \<le> n" "n \<le> length (pq s)"
    and t: "t = s\<lparr>pq := drop n (pq s), thr := (thr s)[i := Batch (take n (pq s)) False]\<rparr>"
    using assms(2) by (auto split: if_splits)
  with sum_list_map_update [OF i(1), of thread_weight "Batch (take n (pq s)) False"] show ?thesis
    by (simp add: port_weight_def)
next
  case (DequeueFails i)
  then have i: "i < length (thr s)" "thr s ! i = Waiting" and t: "t = s\<lparr>thr := (thr s)[i := Exited]\<rparr>"
    using assms(2) by (auto split: if_splits)
  with sum_list_map_update [OF i(1), of thread_weight Exited] show ?thesis by (simp add: port_weight_def)
next
  case (ProcessEntry i)
  then obtain e es st st' where i: "i < length (thr s)" "thr s ! i = Batch (e # es) st"
    and t: "thr t = (thr s)[i := Batch es st']" "pq t = pq s" "owner t = owner s"
    using assms(2) by (auto split: if_splits thread_pc.splits list.splits)
  with sum_list_map_update [OF i(1), of thread_weight "Batch es st'"] show ?thesis
    by (simp add: port_weight_def)
next
  case (EndBatch i)
  then obtain st where i: "i < length (thr s)" "thr s ! i = Batch [] st"
    and t: "t = s\<lparr>thr := (thr s)[i := (if st then Exited else Waiting)]\<rparr>"
    using assms(2) by (auto split: if_splits thread_pc.splits list.splits)
  with sum_list_map_update [OF i(1), of thread_weight "if st then Exited else Waiting"] show ?thesis
    by (simp add: port_weight_def split: if_splits)
next
  case (PostSentinel ok)
  then show ?thesis using assms(2)
    by (cases ok) (auto simp: port_weight_def split: owner_pc.splits nat.splits)
next
  case JoinNext
  then show ?thesis using assms(1,2)
    by (auto simp: port_weight_def port_inv_def split: owner_pc.splits if_splits)
qed (use assms in auto)

text \<open>With one thread, the sentinel is on its way to the thread, or has reached it.\<close>

fun told :: "thread_pc \<Rightarrow> bool" where
  "told Exited = True"
| "told (Batch es stop) = (stop \<or> list_ex is_shutdown es)"
| "told Waiting = False"

definition single_inv :: "port_state \<Rightarrow> bool" where
  "single_inv s \<longleftrightarrow>
     length (thr s) = 1 \<and>
     (case owner s of
        Serving \<Rightarrow> True
      | Posting k \<Rightarrow> k \<le> 1 \<and> (k = 0 \<and> failed_posts s = 0 \<longrightarrow> told (thr s ! 0) \<or> list_ex is_shutdown (pq s))
      | Joining i \<Rightarrow> failed_posts s = 0 \<longrightarrow> told (thr s ! 0) \<or> list_ex is_shutdown (pq s)
      | Closed \<Rightarrow> True)"

lemma list_ex_take_drop: "list_ex P xs \<Longrightarrow> list_ex P (take n xs) \<or> list_ex P (drop n xs)"
  by (metis append_take_drop_id list_ex_append)

lemma single_inv_step:
  assumes "single_inv s" and "port_act a s = Some t"
  shows "single_inv t"
proof -
  have one: "length (thr s) = 1" using assms(1) by (simp add: single_inv_def)
  then obtain th where th: "thr s = [th]" by (cases "thr s") auto
  show ?thesis
  proof (cases a)
    case (DequeueBatch i n)
    then show ?thesis using assms th list_ex_take_drop [of is_shutdown "pq s" n]
      by (auto simp: single_inv_def split: if_splits owner_pc.splits)
  next
    case (PostSentinel ok)
    then show ?thesis using assms th
      by (cases ok) (auto simp: single_inv_def sentinel_def is_shutdown_def split: owner_pc.splits nat.splits)
  next
    case (ProcessEntry i)
    then show ?thesis using assms th
      by (auto simp: single_inv_def split: if_splits owner_pc.splits thread_pc.splits list.splits)
  next
    case (EndBatch i)
    then show ?thesis using assms th
      by (auto simp: single_inv_def split: if_splits owner_pc.splits thread_pc.splits list.splits)
  qed (use assms th in \<open>auto simp: single_inv_def split: if_splits owner_pc.splits\<close>)
qed

lemma single_inv_reachable:
  assumes "port_reachable n s" and "n \<le> 1"
  shows "single_inv s"
  using assms(1)
proof (induction rule: port_reachable.induct)
  case init
  show ?case using assms(2) by (simp add: single_inv_def port_init_def max_def)
next
  case (step s a t)
  then show ?case using single_inv_step by blast
qed

lemma single_progress:
  assumes inv: "single_inv s" and "port_inv s" and ow: "owner s \<noteq> Serving" "owner s \<noteq> Closed" and f: "failed_posts s = 0"
  shows "\<exists>a t. internal a \<and> port_act a s = Some t"
proof (cases "owner s")
  case (Posting k)
  then have "port_act (PostSentinel True) s \<noteq> None" by (auto split: nat.splits)
  then show ?thesis by (metis internal.simps(7) not_None_eq)
next
  case (Joining i)
  obtain th where th: "thr s = [th]" using inv by (auto simp: single_inv_def length_Suc_conv)
  have le: "i \<le> 1" using assms(2) Joining th by (simp add: port_inv_def)
  show ?thesis
  proof (cases "th = Exited \<or> i = 1")
    case True
    then have "port_act JoinNext s \<noteq> None" using Joining th le by auto
    then show ?thesis by (metis internal.simps(8) not_None_eq)
  next
    case False
    show ?thesis
    proof (cases th)
      case Waiting
      then have "pq s \<noteq> []" using inv Joining th f by (auto simp: single_inv_def)
      then have "port_act (DequeueBatch 0 1) s \<noteq> None"
        using Waiting th Joining by (cases "pq s") (auto simp: BATCH_def)
      then show ?thesis by (metis internal.simps(3) not_None_eq)
    next
      case (Batch es st)
      then have "port_act (ProcessEntry 0) s \<noteq> None \<or> port_act (EndBatch 0) s \<noteq> None"
        using th by (cases es) auto
      then show ?thesis by (metis internal.simps(5,6) not_None_eq)
    next
      case Exited
      then show ?thesis using False by simp
    qed
  qed
qed (use ow in auto)

lemma port_reachable_posting:
  assumes "port_reachable n s" and "owner s = Posting k"
  shows "port_reachable n (s\<lparr>owner := Joining 0, pq := pq s @ replicate k sentinel\<rparr>)"
  using assms
proof (induction k arbitrary: s)
  case 0
  then show ?case using port_reachable.step [OF 0(1), of "PostSentinel True"] by simp
next
  case (Suc k)
  let ?s = "s\<lparr>owner := Posting k, pq := pq s @ [sentinel]\<rparr>"
  have "port_reachable n ?s"
    using port_reachable.step [OF Suc.prems(1), of "PostSentinel True" ?s] Suc.prems(2) by simp
  from Suc.IH [OF this] show ?case by simp
qed

lemma port_reachable_sentinels:
  assumes "port_reachable n s" and "i < length (thr s)" and "thr s ! i = Batch (replicate k sentinel) st"
  shows "port_reachable n (s\<lparr>thr := (thr s)[i := Batch [] (st \<or> 0 < k)]\<rparr>)"
  using assms
proof (induction k arbitrary: s st)
  case 0
  then have "s\<lparr>thr := (thr s)[i := Batch [] (st \<or> False)]\<rparr> = s" by (metis list_update_id port_state.surjective
        port_state.update_convs(2) replicate_0 HOL.simp_thms(31))
  then show ?case using 0(1) by simp
next
  case (Suc k)
  let ?s = "s\<lparr>thr := (thr s)[i := Batch (replicate k sentinel) True]\<rparr>"
  have "port_reachable n ?s"
    using port_reachable.step [OF Suc.prems(1), of "ProcessEntry i" ?s] Suc.prems(2,3)
    by (simp add: is_shutdown_def sentinel_def)
  from Suc.IH [OF this, of True] Suc.prems(2) show ?case by simp
qed

fun port_run :: "port_action list \<Rightarrow> port_state \<Rightarrow> port_state option" where
  "port_run [] s = Some s"
| "port_run (a # as) s = (case port_act a s of None \<Rightarrow> None | Some t \<Rightarrow> port_run as t)"

lemma port_run_reachable: "port_reachable n s \<Longrightarrow> port_run as s = Some t \<Longrightarrow> port_reachable n t"
  by (induction as arbitrary: s) (auto split: option.splits intro: port_reachable.step)

definition port_end :: "nat \<Rightarrow> port_action list \<Rightarrow> port_state" where
  "port_end n as = (case port_run as (port_init n) of Some t \<Rightarrow> t | None \<Rightarrow> port_init n)"

lemma port_end_reachable: "port_reachable n (port_end n as)"
  unfolding port_end_def
  by (cases "port_run as (port_init n)") (auto intro: port_reachable.init port_run_reachable)

section \<open>Properties\<close>

text \<open>
  Opening a port is all or nothing.  \<open>IoPort::new\<close> either returns a port with the requested
  number of threads (at least one), leaving exactly that port and those threads open, or, whichever
  call failed, leaves nothing open: the threads spawned before the failure are joined and the port is
  closed.
\<close>

lemma io_port_new_all_or_nothing:
  "case run_state (io_port_new K n) l of
     (Inr p, l') \<Rightarrow> live l' = port_held p + live l \<and> threads p = [0..<max n 1]
   | (Inl e, l') \<Rightarrow> live l' = live l"
  using io_port_new_live [of K n l] by (cases "run_state (io_port_new K n) l") (auto split: sum.splits)

text \<open>
  a batch is finished before the thread leaves.  In any reachable world, when the entries of a
  batch name distinct operations whose packets are posted, the loop delivers every one of them
  with its own status and byte count, wherever sentinels stand in the batch, touches no other
  operation and no freed wrap, and reports to stop exactly when the batch held a sentinel.
\<close>

lemma completion_batch_delivers_all:
  assumes "waker_ok W" and "aq_ok free" and "aq_items free = []" and "reachable W skip free w"
    and "distinct (map lpOverlapped (filter (\<lambda>e. \<not> is_shutdown e) es))"
    and "\<And>e. e \<in> set es \<Longrightarrow> \<not> is_shutdown e \<Longrightarrow> kern (ops w (lpOverlapped e)) = KPosted"
  shows "\<exists>w'. completion_batch W skip es False w = Next (list_ex is_shutdown es, w') \<and>
    (\<forall>e \<in> set es. \<not> is_shutdown e \<longrightarrow> kern (ops w' (lpOverlapped e)) =
       KDone (deliver_status W (sub_status (sub (ops w (lpOverlapped e))))) (sub_len (sub (ops w (lpOverlapped e))))) \<and>
    (\<forall>a. a \<notin> lpOverlapped ` set (filter (\<lambda>e. \<not> is_shutdown e) es) \<longrightarrow> ops w' a = ops w a)"
  using completion_batch_delivers [OF reachable_inv [OF assms(1-4)] assms(1,5,6), of False] by simp

text \<open>
  C8: every packet is delivered exactly once.  In every reachable state of a port with any number of
  threads, each packet the kernel posted is either delivered, once, or still in the queue or in the
  hands of a thread that has not looked at it; a thread that has returned holds none; and the port is
  closed only when every thread has returned.
\<close>

theorem port_delivers_exactly_once:
  assumes "port_reachable n s"
  shows "mset (posted s) = mset (handled s) + pending s \<and>
    (owner s = Closed \<longrightarrow> list_all (\<lambda>t. t = Exited) (thr s) \<and>
       mset (posted s) = mset (handled s) + filter_mset (\<lambda>e. \<not> is_shutdown e) (mset (pq s)))"
proof -
  have inv: "port_inv s" using port_inv_reachable [OF assms] .
  moreover have "(\<Sum>t \<in># mset (thr s). mset (in_hand t)) = {#}" if "list_all (\<lambda>t. t = Exited) (thr s)"
    using that by (induction "thr s" arbitrary: s) (auto simp: list_all_iff)
  ultimately show ?thesis by (auto simp: port_inv_def pending_def)
qed

theorem port_delivers_exactly_once_witness:
  "let e = \<lparr>lpCompletionKey = 8, lpOverlapped = 3, dwNumberOfBytesTransferred = 5\<rparr>;
       s = port_end 2 [KernelPosts e, DequeueBatch 1 1, ProcessEntry 1] in
   mset (posted s) = mset (handled s) + pending s \<and> handled s = [e]"
proof -
  let ?e = "\<lparr>lpCompletionKey = 8, lpOverlapped = 3, dwNumberOfBytesTransferred = 5\<rparr> :: OVERLAPPED_ENTRY"
  let ?as = "[KernelPosts ?e, DequeueBatch 1 1, ProcessEntry 1]"
  have "handled (port_end 2 ?as) = [?e]" by code_simp
  with port_delivers_exactly_once [OF port_end_reachable [of 2 ?as]] show ?thesis by (simp add: Let_def)
qed



text \<open>
  C23: a port with several completion threads need not shut down.  For every thread count from two
  up to the batch size there is a reachable state in which every sentinel was posted and one thread
  took all of them in a single batch: that thread has returned, the others wait in
  \<open>GetQueuedCompletionStatusEx\<close>, \<open>drop\<close> waits to join one of them, and no step of any
  thread or of \<open>drop\<close> is possible any more.
\<close>

theorem port_shutdown_can_hang:
  assumes "2 \<le> n" and "n \<le> BATCH"
  shows "\<exists>s. port_reachable n s \<and> owner s = Joining 1 \<and> failed_posts s = 0 \<and> thr s = Exited # replicate (n - 1) Waiting \<and>
    (\<forall>a. internal a \<longrightarrow> port_act a s = None)"
proof -
  let ?s = "port_init n"
  obtain m where m: "n = Suc m" "1 \<le> m" using assms(1) by (cases n) auto
  have thr: "thr ?s = Waiting # replicate m Waiting" using m by (simp add: port_init_def)
  have "port_reachable n (?s\<lparr>owner := Posting n\<rparr>)"
    using port_reachable.step [OF port_reachable.init [of n], of StartDrop] m by (simp add: port_init_def)
  from port_reachable_posting [OF this, of n]
  have r1: "port_reachable n (?s\<lparr>owner := Joining 0, pq := replicate n sentinel\<rparr>)" (is "port_reachable n ?s1")
    by (simp add: port_init_def)
  have "port_reachable n (?s1\<lparr>pq := [], thr := (thr ?s)[0 := Batch (replicate n sentinel) False]\<rparr>)"
    using port_reachable.step [OF r1, of "DequeueBatch 0 n"] thr assms by simp
  from port_reachable_sentinels [OF this, of 0 n False]
  have r2: "port_reachable n (?s\<lparr>owner := Joining 0, pq := [], thr := Batch [] True # replicate m Waiting\<rparr>)"
    (is "port_reachable n ?s2") using thr m by simp
  have r3: "port_reachable n (?s\<lparr>owner := Joining 0, pq := [], thr := Exited # replicate m Waiting\<rparr>)"
    (is "port_reachable n ?s3") using port_reachable.step [OF r2, of "EndBatch 0"] by simp
  have r4: "port_reachable n (?s3\<lparr>owner := Joining 1\<rparr>)" (is "port_reachable n ?s4")
    using port_reachable.step [OF r3, of JoinNext] by simp
  have nth: "(Exited # replicate m Waiting) ! i = (if i = 0 then Exited else Waiting)" if "i < Suc m" for i
    using that by (cases i) auto
  have "port_act a ?s4 = None" if "internal a" for a
    using that m nth by (cases a) auto
  with r4 m show ?thesis by (intro exI [of _ ?s4]) (simp add: port_init_def)
qed

theorem port_shutdown_can_hang_witness:
  "\<exists>s. port_reachable 4 s \<and> owner s = Joining 1 \<and> (\<forall>a. internal a \<longrightarrow> port_act a s = None)"
  using port_shutdown_can_hang [of 4] by (auto simp: BATCH_def)

end
