(* ===== verification/Http_Types.thy ===== *)
theory Http_Types
  imports Httpsys_Prelude
begin

text \<open>
  The C structures http.sys fills in and reads, as far as the crate looks at them.  They belong to
  the \<open>windows\<close> crate, so only their fields are named here; their values always come from the
  kernel (a parameter) or from the code.  A pointer and its length stay two fields: the pointer is
  \<open>None\<close> when null and otherwise the memory that starts at it, and reading a slice takes the first
  \<open>len\<close> bytes of that memory.
\<close>

record raw_bytes =
  raw_len :: u16
  raw_ptr :: "string option"

definition raw_null :: raw_bytes where
  "raw_null = \<lparr>raw_len = 0, raw_ptr = None\<rparr>"

text \<open>\<open>slice::from_raw_parts(ptr, len)\<close>, for a pointer that is not null.\<close>

definition raw_slice :: "raw_bytes \<Rightarrow> string" where
  "raw_slice r = (case raw_ptr r of None \<Rightarrow> [] | Some mem \<Rightarrow> take (unat (raw_len r)) mem)"

text \<open>The slice the kernel describes lies inside the memory it points into.\<close>

definition raw_valid :: "raw_bytes \<Rightarrow> bool" where
  "raw_valid r \<longleftrightarrow> (case raw_ptr r of None \<Rightarrow> True | Some mem \<Rightarrow> unat (raw_len r) \<le> length mem)"

datatype HTTP_HEADER_ID =
    HttpHeaderConnection
  | HttpHeaderContentLength
  | HttpHeaderContentType
  | HttpHeaderHost
  | HttpHeaderUserAgent

datatype HTTP_VERB =
    HttpVerbUnparsed
  | HttpVerbGET
  | HttpVerbPOST
  | HttpVerbPUT
  | HttpVerbDELETE
  | HttpVerbHEAD
  | HttpVerbOPTIONS
  | HttpVerbTRACE
  | HttpVerbCONNECT
  | HttpVerbOther int

text \<open>The in-memory entity chunk (\<open>HTTP_DATA_CHUNK\<close> with \<open>FromMemory\<close>).\<close>

record HTTP_DATA_CHUNK =
  pBuffer :: "u8 list option"
  BufferLength :: u32

record HTTP_REQUEST_V2 =
  RequestId :: u64
  ConnectionId :: u64
  UrlContext :: u64
  Flags :: u32
  Verb :: HTTP_VERB
  UnknownVerb :: raw_bytes
  RawUrl :: raw_bytes
  KnownHeaders :: "HTTP_HEADER_ID \<Rightarrow> raw_bytes"
  EntityChunkCount :: u16
  pEntityChunks :: "HTTP_DATA_CHUNK option"

text \<open>All bytes zero: what \<open>alloc_zeroed\<close> and \<open>write_bytes(0, 1)\<close> leave behind.\<close>

definition zeroed_request :: HTTP_REQUEST_V2 where
  "zeroed_request =
     \<lparr>RequestId = 0, ConnectionId = 0, UrlContext = 0, Flags = 0, Verb = HttpVerbUnparsed,
      UnknownVerb = raw_null, RawUrl = raw_null, KnownHeaders = (\<lambda>_. raw_null),
      EntityChunkCount = 0, pEntityChunks = None\<rparr>"

lemma zeroed_request_simps [simp]:
  "RequestId zeroed_request = 0" "ConnectionId zeroed_request = 0" "UrlContext zeroed_request = 0"
  "Flags zeroed_request = 0" "KnownHeaders zeroed_request h = raw_null"
  "Verb zeroed_request = HttpVerbUnparsed" "UnknownVerb zeroed_request = raw_null"
  "RawUrl zeroed_request = raw_null" "EntityChunkCount zeroed_request = 0"
  by (simp_all add: zeroed_request_def)

lemma raw_null_simps [simp]: "raw_len raw_null = 0" "raw_ptr raw_null = None" "raw_slice raw_null = []"
  by (simp_all add: raw_null_def raw_slice_def)

text \<open>A header value as the kernel hands it over: a pointer to the text and its length.\<close>

definition raw_of :: "string \<Rightarrow> raw_bytes" where
  "raw_of s = \<lparr>raw_len = as_u16 (length s), raw_ptr = Some s\<rparr>"

lemma raw_of_simps [simp]: "raw_len (raw_of s) = as_u16 (length s)" "raw_ptr (raw_of s) = Some s"
  by (simp_all add: raw_of_def)

lemma raw_slice_of: "length s < 2 ^ 16 \<Longrightarrow> raw_slice (raw_of s) = s"
  by (simp add: raw_slice_def raw_of_def cast_simps)

end
