(* ===== verification/Httpsys_Buffer.thy ===== *)
theory Httpsys_Buffer
  imports Object_Pool Http_Types
begin

text \<open>
  The pooled buffers of \<open>crates/httpsys/src/buffer.rs\<close>: receive buffers (\<open>RequestBuffer\<close>,
  \<open>BufferPool\<close>, \<open>PooledBuffer\<close>) and body buffers (\<open>BodyPool\<close>, \<open>PooledVec\<close>).

  A \<open>RequestBuffer\<close> is its length in 64-bit words and the \<open>HTTP_REQUEST_V2\<close> its first bytes hold.
  \<open>size_of::<HTTP_REQUEST_V2>()\<close> is the parameter \<open>sz\<close>.  A checked-out buffer (\<open>PooledBuffer\<close>,
  \<open>PooledVec\<close>) is an \<open>option\<close> that is emptied on drop; dereferencing it is partial, as the
  \<open>expect\<close> is.  The pool a checked-out buffer points back to is passed along explicitly.
\<close>

section \<open>Receive buffers\<close>

definition HEADER_SLACK :: nat where
  "HEADER_SLACK = 8 * 1024"

record RequestBuffer =
  words :: nat
  contents :: HTTP_REQUEST_V2

definition request_buffer_new :: "nat \<Rightarrow> nat \<Rightarrow> RequestBuffer" where
  "request_buffer_new sz len =
     (let min_words = div_ceil sz 8 + 1 in
      \<lparr>words = max (div_ceil len 8) min_words, contents = zeroed_request\<rparr>)"

definition capacity :: "RequestBuffer \<Rightarrow> u32" where
  "capacity b = as_u32 (words b * 8)"

definition grow_to :: "nat \<Rightarrow> nat \<Rightarrow> RequestBuffer \<Rightarrow> RequestBuffer" where
  "grow_to sz len b = (if unat (capacity b) < len then request_buffer_new sz len else b)"

definition declared_body_len :: "RequestBuffer \<Rightarrow> nat option" where
  "declared_body_len b =
     (let header = KnownHeaders (contents b) HttpHeaderContentLength in
      if raw_len header = 0 \<or> raw_ptr header = None then None
      else case Option.bind (from_utf8 (raw_slice header)) (parse_uint U64_MAX) of
             Some n \<Rightarrow> Some n
           | None \<Rightarrow> Some U64_MAX)"

definition prepare :: "RequestBuffer \<Rightarrow> RequestBuffer" where
  "prepare b = b\<lparr>contents := zeroed_request\<rparr>"

definition buffer_request_id :: "RequestBuffer \<Rightarrow> u64" where
  "buffer_request_id b = RequestId (contents b)"

section \<open>The pool of receive buffers\<close>

record 'q BufferPool =
  bp_free :: "(RequestBuffer, 'q) array_queue"
  bp_bytes :: nat
  bp_max_bytes :: nat

record PooledBuffer =
  pb_buffer :: "RequestBuffer option"

definition buffer_pool_new ::
  "(nat \<Rightarrow> (RequestBuffer, 'q) array_queue) \<Rightarrow> nat \<Rightarrow> nat \<Rightarrow> nat \<Rightarrow> 'q BufferPool" where
  "buffer_pool_new new_queue slots len max_len =
     \<lparr>bp_free = new_queue (max slots 1), bp_bytes = len, bp_max_bytes = max max_len len\<rparr>"

definition buffer_pool_take :: "nat \<Rightarrow> 'q BufferPool \<Rightarrow> PooledBuffer \<times> 'q BufferPool" where
  "buffer_pool_take sz pool =
     (case aq_pop (bp_free pool) of
        (popped, free) \<Rightarrow>
          (\<lparr>pb_buffer = Some (case popped of Some b \<Rightarrow> b | None \<Rightarrow> request_buffer_new sz (bp_bytes pool))\<rparr>,
           pool\<lparr>bp_free := free\<rparr>))"

text \<open>\<open>Deref\<close> and \<open>DerefMut\<close>: \<open>None\<close> is the panic of the \<open>expect\<close>.\<close>

definition pooled_deref :: "PooledBuffer \<Rightarrow> RequestBuffer option" where
  "pooled_deref p = pb_buffer p"

text \<open>\<open>fit_body_inline\<close> on the buffer behind the dereference, given the pool's ceiling.\<close>

definition fit_body :: "nat \<Rightarrow> nat \<Rightarrow> RequestBuffer \<Rightarrow> bool \<times> RequestBuffer" where
  "fit_body sz max_len b =
     (case declared_body_len b of
        None \<Rightarrow> (True, b)
      | Some declared \<Rightarrow>
          (let needed = saturating_add64 declared HEADER_SLACK in
           if max_len < needed then (False, b) else (True, grow_to sz needed b)))"

definition fit_body_inline :: "nat \<Rightarrow> 'q BufferPool \<Rightarrow> PooledBuffer \<Rightarrow> (bool \<times> PooledBuffer) option" where
  "fit_body_inline sz pool p =
     (case pooled_deref p of
        None \<Rightarrow> None
      | Some b \<Rightarrow> (case fit_body sz (bp_max_bytes pool) b of (fits, b') \<Rightarrow> Some (fits, p\<lparr>pb_buffer := Some b'\<rparr>)))"

definition pooled_buffer_drop :: "PooledBuffer \<Rightarrow> 'q BufferPool \<Rightarrow> 'q BufferPool" where
  "pooled_buffer_drop p pool =
     (case pb_buffer p of None \<Rightarrow> pool | Some b \<Rightarrow> pool\<lparr>bp_free := aq_push b (bp_free pool)\<rparr>)"

section \<open>The pool of body buffers\<close>

record 'q BodyPool =
  dp_free :: "(vec_u8, 'q) array_queue"
  dp_max_retained :: nat

record PooledVec =
  pv_vec :: "vec_u8 option"

definition body_pool_new :: "(nat \<Rightarrow> (vec_u8, 'q) array_queue) \<Rightarrow> nat \<Rightarrow> nat \<Rightarrow> 'q BodyPool" where
  "body_pool_new new_queue slots max_retained =
     \<lparr>dp_free = new_queue (max slots 1), dp_max_retained = max_retained\<rparr>"

definition body_pool_take :: "nat \<Rightarrow> 'q BodyPool \<Rightarrow> PooledVec \<times> 'q BodyPool" where
  "body_pool_take want pool =
     (case aq_pop (dp_free pool) of
        (popped, free) \<Rightarrow>
          (let vec = (case popped of Some v \<Rightarrow> v | None \<Rightarrow> vec_new) in
           (\<lparr>pv_vec = Some (vec_reserve_exact (want - vcap vec) vec)\<rparr>, pool\<lparr>dp_free := free\<rparr>)))"

definition pooled_vec_deref :: "PooledVec \<Rightarrow> vec_u8 option" where
  "pooled_vec_deref p = pv_vec p"

definition pooled_vec_drop :: "PooledVec \<Rightarrow> 'q BodyPool \<Rightarrow> 'q BodyPool" where
  "pooled_vec_drop p pool =
     (case pv_vec p of
        None \<Rightarrow> pool
      | Some vec \<Rightarrow>
          if vcap vec \<le> dp_max_retained pool then pool\<lparr>dp_free := aq_push (vec_clear vec) (dp_free pool)\<rparr>
          else pool)"

section \<open>Lemmas on receive buffers\<close>

lemmas buffer_defs = request_buffer_new_def capacity_def grow_to_def prepare_def
  buffer_request_id_def

lemma new_words_ge: "len \<le> words (request_buffer_new sz len) * 8"
  "sz + 8 \<le> words (request_buffer_new sz len) * 8"
proof -
  have "len \<le> div_ceil len 8 * 8" by (rule div_ceil_mult_ge) simp
  also have "\<dots> \<le> words (request_buffer_new sz len) * 8" by (simp add: request_buffer_new_def Let_def)
  finally show "len \<le> words (request_buffer_new sz len) * 8" .
  have "sz \<le> div_ceil sz 8 * 8" by (rule div_ceil_mult_ge) simp
  then have "sz + 8 \<le> (div_ceil sz 8 + 1) * 8" by simp
  also have "\<dots> \<le> words (request_buffer_new sz len) * 8"
    by (rule mult_le_mono1) (simp add: request_buffer_new_def Let_def)
  finally show "sz + 8 \<le> words (request_buffer_new sz len) * 8" .
qed

lemma new_words_le: "words (request_buffer_new sz len) * 8 < max len (sz + 8) + 8"
proof -
  have "div_ceil len 8 * 8 < len + 8" "div_ceil sz 8 * 8 < sz + 8"
    by (rule div_ceil_mult_less, simp)+
  then show ?thesis by (auto simp: request_buffer_new_def Let_def max_def)
qed

lemma contents_new [simp]: "contents (request_buffer_new sz len) = zeroed_request"
  by (simp add: request_buffer_new_def Let_def)

lemma contents_prepare [simp]: "contents (prepare b) = zeroed_request"
  by (simp add: prepare_def)

lemma words_prepare [simp]: "words (prepare b) = words b"
  by (simp add: prepare_def)

lemma capacity_prepare [simp]: "capacity (prepare b) = capacity b"
  by (simp add: capacity_def)

lemma unat_capacity: "words b * 8 < 2 ^ 32 \<Longrightarrow> unat (capacity b) = words b * 8"
  by (simp add: capacity_def cast_simps)

lemma unat_capacity_new:
  assumes "max len (sz + 8) + 8 \<le> 2 ^ 32"
  shows "unat (capacity (request_buffer_new sz len)) = words (request_buffer_new sz len) * 8"
  using new_words_le [of sz len] assms by (intro unat_capacity) linarith

lemma declared_body_len_zeroed: "contents b = zeroed_request \<Longrightarrow> declared_body_len b = None"
  by (simp add: declared_body_len_def)

lemma declared_body_len_decimal:
  assumes n: "n \<le> U64_MAX"
    and hdr: "KnownHeaders (contents b) HttpHeaderContentLength = raw_of (decimal n)"
  shows "declared_body_len b = Some n"
proof -
  have short: "length (decimal n) < 2 ^ 16" using length_decimal_u64 [OF n] by simp
  have "unat (as_u16 (length (decimal n))) \<noteq> 0" using short by (simp add: cast_simps)
  then have len: "as_u16 (length (decimal n)) \<noteq> 0" by auto
  have "of_char c < (128::nat)" if "c \<in> set (decimal n)" for c
    using decimal_digits that by (fastforce simp: digit_val_def Let_def split: if_splits)
  then have "from_utf8 (decimal n) = Some (decimal n)"
    by (intro from_utf8_ascii) auto
  then show ?thesis
    using hdr len n by (simp add: declared_body_len_def raw_slice_of [OF short] parse_uint_decimal)
qed

lemma declared_body_len_bound: "declared_body_len b = Some d \<Longrightarrow> d \<le> U64_MAX"
  by (auto simp: declared_body_len_def Let_def bind_eq_Some_conv dest: parse_uint_bound
      split: if_splits option.splits)

text \<open>The sizes a receive buffer may have under a pool ceiling of \<open>mx\<close> bytes.\<close>

definition buffer_ok :: "nat \<Rightarrow> nat \<Rightarrow> RequestBuffer \<Rightarrow> bool" where
  "buffer_ok sz mx b \<longleftrightarrow> sz + 8 \<le> words b * 8 \<and> words b * 8 < max mx (sz + 8) + 8"

lemma buffer_ok_new: "len \<le> mx \<Longrightarrow> buffer_ok sz mx (request_buffer_new sz len)"
  using new_words_ge(2) [of sz len] new_words_le [of sz len]
  by (auto simp: buffer_ok_def max_def split: if_splits)

lemma buffer_ok_prepare [simp]: "buffer_ok sz mx (prepare b) \<longleftrightarrow> buffer_ok sz mx b"
  by (simp add: buffer_ok_def)

lemma buffer_ok_grow: "buffer_ok sz mx b \<Longrightarrow> len \<le> mx \<Longrightarrow> buffer_ok sz mx (grow_to sz len b)"
  by (simp add: grow_to_def buffer_ok_new)

lemma buffer_ok_fit: "buffer_ok sz mx b \<Longrightarrow> buffer_ok sz mx (snd (fit_body sz mx b))"
  by (auto simp: fit_body_def Let_def buffer_ok_grow split: option.splits)

lemma buffer_ok_capacity:
  "buffer_ok sz mx b \<Longrightarrow> max mx (sz + 8) + 8 \<le> 2 ^ 32 \<Longrightarrow> unat (capacity b) = words b * 8"
  unfolding buffer_ok_def by (intro unat_capacity) linarith

lemma grow_to_capacity:
  assumes "buffer_ok sz mx b" and "max mx (sz + 8) + 8 \<le> 2 ^ 32" and "len \<le> mx"
  shows "unat (capacity (grow_to sz len b)) = words (grow_to sz len b) * 8"
    and "len \<le> unat (capacity (grow_to sz len b))"
    and "unat (capacity b) \<le> unat (capacity (grow_to sz len b))"
proof -
  show cap: "unat (capacity (grow_to sz len b)) = words (grow_to sz len b) * 8"
    using buffer_ok_capacity [OF buffer_ok_grow] assms by blast
  show "len \<le> unat (capacity (grow_to sz len b))"
    using cap new_words_ge(1) [of len sz] by (auto simp: grow_to_def split: if_splits)
  then show "unat (capacity b) \<le> unat (capacity (grow_to sz len b))"
    by (auto simp: grow_to_def)
qed

lemma fit_body_small:
  assumes "declared_body_len b = Some d" and "mx < U64_MAX"
  shows "fit_body sz mx b =
    (if mx < d + HEADER_SLACK then (False, b) else (True, grow_to sz (d + HEADER_SLACK) b))"
  using assms declared_body_len_bound [OF assms(1)]
  by (auto simp: fit_body_def Let_def saturating_add64_def min_def)

section \<open>The pools keep their promises\<close>

definition buffer_pool_inv :: "nat \<Rightarrow> nat \<Rightarrow> 'q BufferPool \<Rightarrow> bool" where
  "buffer_pool_inv sz mx p \<longleftrightarrow>
     aq_ok (bp_free p) \<and> bp_max_bytes p = mx \<and> bp_bytes p \<le> mx \<and>
     list_all (buffer_ok sz mx) (aq_items (bp_free p))"

definition pooled_buffer_ready :: "nat \<Rightarrow> nat \<Rightarrow> PooledBuffer \<Rightarrow> bool" where
  "pooled_buffer_ready sz mx p \<longleftrightarrow>
     (case pooled_deref p of None \<Rightarrow> False | Some b \<Rightarrow> buffer_ok sz mx b)"

definition body_pool_inv :: "nat \<Rightarrow> 'q BodyPool \<Rightarrow> bool" where
  "body_pool_inv mr p \<longleftrightarrow>
     aq_ok (dp_free p) \<and> dp_max_retained p = mr \<and>
     list_all (\<lambda>v. vbytes v = [] \<and> vcap v \<le> mr) (aq_items (dp_free p))"

definition pooled_vec_ready :: "PooledVec \<Rightarrow> bool" where
  "pooled_vec_ready p \<longleftrightarrow> (case pooled_vec_deref p of None \<Rightarrow> False | Some v \<Rightarrow> vbytes v = [])"

lemma buffer_pool_take_keeps:
  assumes inv: "buffer_pool_inv sz mx p" and tk: "buffer_pool_take sz p = (x, p')"
  shows "buffer_pool_inv sz mx p' \<and> aq_cap (bp_free p') = aq_cap (bp_free p)"
    and "pooled_buffer_ready sz mx x"
proof -
  obtain r free where pop: "aq_pop (bp_free p) = (r, free)" by fastforce
  have ok: "aq_ok (bp_free p)" using inv by (simp add: buffer_pool_inv_def)
  note items = aq_pop_items [OF ok pop]
  show "buffer_pool_inv sz mx p' \<and> aq_cap (bp_free p') = aq_cap (bp_free p)"
    using inv tk pop items aq_ok_pop [OF ok pop]
    by (cases r) (auto simp: buffer_pool_inv_def buffer_pool_take_def)
  show "pooled_buffer_ready sz mx x"
    using inv tk pop items
    by (cases r) (auto simp: buffer_pool_inv_def buffer_pool_take_def pooled_buffer_ready_def
        pooled_deref_def buffer_ok_new)
qed

lemma buffer_pool_put_keeps:
  assumes "buffer_pool_inv sz mx p" and "pooled_buffer_ready sz mx x"
  shows "buffer_pool_inv sz mx (pooled_buffer_drop x p) \<and>
    aq_cap (bp_free (pooled_buffer_drop x p)) = aq_cap (bp_free p)"
  using assms
  by (auto simp: buffer_pool_inv_def pooled_buffer_drop_def pooled_buffer_ready_def pooled_deref_def
      aq_items_push aq_cap_push split: option.splits)

lemma body_pool_take_keeps:
  assumes inv: "body_pool_inv mr p" and tk: "body_pool_take want p = (x, p')"
  shows "body_pool_inv mr p' \<and> aq_cap (dp_free p') = aq_cap (dp_free p)"
    and "pooled_vec_ready x"
proof -
  obtain r free where pop: "aq_pop (dp_free p) = (r, free)" by fastforce
  have ok: "aq_ok (dp_free p)" using inv by (simp add: body_pool_inv_def)
  note items = aq_pop_items [OF ok pop]
  show "body_pool_inv mr p' \<and> aq_cap (dp_free p') = aq_cap (dp_free p)"
    using inv tk pop items aq_ok_pop [OF ok pop]
    by (cases r) (auto simp: body_pool_inv_def body_pool_take_def)
  show "pooled_vec_ready x"
    using inv tk pop items
    by (cases r) (auto simp: body_pool_inv_def body_pool_take_def pooled_vec_ready_def
        pooled_vec_deref_def Let_def vec_new_def)
qed

lemma body_pool_put_keeps:
  assumes "body_pool_inv mr p"
  shows "body_pool_inv mr (pooled_vec_drop x p) \<and>
    aq_cap (dp_free (pooled_vec_drop x p)) = aq_cap (dp_free p)"
  using assms
  by (auto simp: body_pool_inv_def pooled_vec_drop_def aq_items_push aq_cap_push split: option.splits)

interpretation buffer_recycler: recycler "buffer_pool_inv sz mx" "aq_items \<circ> bp_free" "aq_cap \<circ> bp_free"
  "\<lambda>_ :: unit. buffer_pool_take sz" pooled_buffer_drop "pooled_buffer_ready sz mx"
  "pooled_buffer_ready sz mx" for sz mx
proof unfold_locales
  fix p :: "'a BufferPool"
  assume "buffer_pool_inv sz mx p"
  then show "length ((aq_items \<circ> bp_free) p) \<le> (aq_cap \<circ> bp_free) p"
    by (simp add: buffer_pool_inv_def aq_ok_def)
qed (simp_all add: buffer_pool_take_keeps buffer_pool_put_keeps)

interpretation body_recycler: recycler "body_pool_inv mr" "aq_items \<circ> dp_free" "aq_cap \<circ> dp_free"
  body_pool_take pooled_vec_drop pooled_vec_ready "\<lambda>_. True" for mr
proof unfold_locales
  fix p :: "'a BodyPool"
  assume "body_pool_inv mr p"
  then show "length ((aq_items \<circ> dp_free) p) \<le> (aq_cap \<circ> dp_free) p"
    by (simp add: body_pool_inv_def aq_ok_def)
qed (simp_all add: body_pool_take_keeps body_pool_put_keeps)

text \<open>
  \<open>fit_body_inline\<close> decides correctly and makes room.  For a buffer of a size the pool allows
  and a request that declares a body of \<open>d\<close> bytes, it answers \<open>true\<close> exactly when the body and the
  8 KiB header slack fit under the pool's ceiling; then the buffer has room for both; the buffer
  never shrinks, and it keeps a size the pool allows, so it never outgrows the ceiling (rounded up
  to a word).
\<close>

lemma fit_body_room:
  assumes "buffer_ok sz mx b" and "max mx (sz + 8) + 8 \<le> 2 ^ 32"
    and "declared_body_len b = Some d" and "fit_body sz mx b = (fits, b')"
  shows "(fits \<longleftrightarrow> d + HEADER_SLACK \<le> mx) \<and>
    (fits \<longrightarrow> d + HEADER_SLACK \<le> unat (capacity b')) \<and>
    unat (capacity b) \<le> unat (capacity b') \<and> buffer_ok sz mx b'"
proof -
  have "mx < U64_MAX" using assms(2) by (simp add: U64_MAX_def)
  from fit_body_small [OF assms(3) this, of sz] assms(4)
  have eq: "(fits, b') =
      (if mx < d + HEADER_SLACK then (False, b) else (True, grow_to sz (d + HEADER_SLACK) b))"
    by simp
  show ?thesis
  proof (cases "mx < d + HEADER_SLACK")
    case True
    with eq assms(1) show ?thesis by simp
  next
    case False
    with eq grow_to_capacity [OF assms(1,2), of "d + HEADER_SLACK"] assms(1)
    show ?thesis by (simp add: buffer_ok_grow)
  qed
qed

section \<open>Properties\<close>

text \<open>
  A fresh receive buffer is large enough.  For sizes that fit the 32-bit length http.sys takes
  (so that the cast in \<open>capacity\<close> loses nothing), the capacity reported to the kernel is a whole
  number of 64-bit words, covers the requested bytes and the \<open>HTTP_REQUEST_V2\<close> block with at least
  one word to spare, and exceeds the larger of the two by less than one word.
\<close>

lemma request_buffer_capacity:
  assumes "max len (sz + 8) + 8 \<le> 2 ^ 32"
  shows "len \<le> unat (capacity (request_buffer_new sz len)) \<and>
    sz + 8 \<le> unat (capacity (request_buffer_new sz len)) \<and>
    unat (capacity (request_buffer_new sz len)) < max len (sz + 8) + 8 \<and>
    unat (capacity (request_buffer_new sz len)) mod 8 = 0"
  using new_words_ge [of len sz] new_words_ge(2) [of sz len] new_words_le [of sz len]
  by (simp add: unat_capacity_new [OF assms])

definition upload_request :: HTTP_REQUEST_V2 where
  "upload_request = zeroed_request\<lparr>RequestId := 7, UrlContext := 1,
     KnownHeaders := (\<lambda>h. if h = HttpHeaderContentLength then raw_of (decimal 65536) else raw_null)\<rparr>"

lemma declared_upload: "contents b = upload_request \<Longrightarrow> declared_body_len b = Some 65536"
  by (rule declared_body_len_decimal) (simp_all add: U64_MAX_def upload_request_def)

lemma upload_buffer_ok:
  "buffer_ok 864 131072 ((request_buffer_new 864 16384)\<lparr>contents := upload_request\<rparr>)"
  using buffer_ok_new [of 16384 131072 864] by (simp add: buffer_ok_def)

lemma capacity_contents [simp]: "capacity (b\<lparr>contents := c\<rparr>) = capacity b"
  by (simp add: capacity_def)

text \<open>
  Growing a receive buffer for the next request destroys the current one.  Whenever
  \<open>fit_body_inline\<close> has to grow the buffer (the declared body and the slack fit under the ceiling but
  not in the present buffer), it still answers \<open>true\<close>, and the buffer it leaves is freshly zeroed:
  the request that was just received, its id, its URL context and its headers are gone.
\<close>

lemma fit_body_growth_discards_request:
  assumes "mx < U64_MAX" and "declared_body_len b = Some d"
    and "d + HEADER_SLACK \<le> mx" and "unat (capacity b) < d + HEADER_SLACK"
  shows "fst (fit_body sz mx b) \<and> contents (snd (fit_body sz mx b)) = zeroed_request \<and>
    buffer_request_id (snd (fit_body sz mx b)) = 0"
  using assms by (simp add: fit_body_small [OF assms(2,1)] grow_to_def buffer_request_id_def)

text \<open>
  the receive-buffer pool is sound.  Over any sequence of takes and drops, starting from
  \<open>BufferPool::new\<close>, every buffer handed out dereferences (the \<open>expect\<close> cannot fail) and is large
  enough for the request block and no larger than the ceiling allows, and the free list never holds
  more than the configured number of buffers.
\<close>

lemma buffer_pool_sound:
  assumes "aq_new_ok new_queue" and "len \<le> mx"
    and "\<And>x. Put x \<in> set ops \<Longrightarrow> pooled_buffer_ready sz mx x"
    and "pool_run (\<lambda>_ :: unit. buffer_pool_take sz) pooled_buffer_drop ops
           (buffer_pool_new new_queue slots len mx) = (xs, pool)"
  shows "list_all (pooled_buffer_ready sz mx) xs \<and> length (aq_items (bp_free pool)) \<le> max slots 1"
proof -
  let ?p = "buffer_pool_new new_queue slots len mx"
  have cap: "aq_cap (bp_free ?p) = max slots 1" and inv: "buffer_pool_inv sz mx ?p"
    using assms(1,2) by (simp_all add: aq_new_ok_def buffer_pool_inv_def buffer_pool_new_def)
  show ?thesis
    using buffer_recycler.run_keeps [OF inv assms(3,4)] buffer_recycler.run_stock [OF inv assms(3,4)] cap
    by (simp add: list_all_iff)
qed

text \<open>
  C11: the body-buffer pool is sound.  Over any sequence of takes and drops of any vectors, starting
  from \<open>BodyPool::new\<close>, every vector handed out is empty, the free list never holds more than the
  configured number of vectors, and every vector it retains is empty and within \<open>max_retained\<close>, so
  an outsized upload cannot pin its memory.
\<close>

theorem body_pool_sound:
  assumes "aq_new_ok new_queue"
    and "pool_run body_pool_take pooled_vec_drop ops (body_pool_new new_queue slots mr) = (xs, pool)"
  shows "list_all pooled_vec_ready xs \<and> length (aq_items (dp_free pool)) \<le> max slots 1 \<and>
    list_all (\<lambda>v. vbytes v = [] \<and> vcap v \<le> mr) (aq_items (dp_free pool))"
proof -
  let ?p = "body_pool_new new_queue slots mr"
  have cap: "aq_cap (dp_free ?p) = max slots 1" and inv: "body_pool_inv mr ?p"
    using assms(1) by (simp_all add: aq_new_ok_def body_pool_inv_def body_pool_new_def)
  show ?thesis
    using body_recycler.run_keeps [OF inv _ assms(2)] body_recycler.run_stock [OF inv _ assms(2)] cap
    by (simp add: list_all_iff body_pool_inv_def)
qed

theorem body_pool_sound_witness:
  "length (aq_items (dp_free (snd (pool_run body_pool_take pooled_vec_drop
      [Take 512, Put \<lparr>pv_vec = Some \<lparr>vbytes = [1, 2], vcap = 512\<rparr>\<rparr>,
       Put \<lparr>pv_vec = Some \<lparr>vbytes = [], vcap = 8192\<rparr>\<rparr>]
      (body_pool_new list_queue_new 4 1024))))) \<le> 4"
  using body_pool_sound [of list_queue_new
      "[Take 512, Put \<lparr>pv_vec = Some \<lparr>vbytes = [1, 2], vcap = 512\<rparr>\<rparr>,
        Put \<lparr>pv_vec = Some \<lparr>vbytes = [], vcap = 8192\<rparr>\<rparr>]" 4 1024]
  by (auto split: prod.splits)

text \<open>
  C28: \<open>BodyPool::take\<close> does not deliver the room it promises.  It computes the missing room against
  the capacity of the recycled vector but reserves it counted from the vector's length, which is
  zero.  So a recycled vector of capacity \<open>c\<close> comes back with exactly \<open>max c (want - c)\<close> bytes of
  room: whenever \<open>c < want < 2 c\<close> the buffer is handed out unchanged and smaller than requested,
  and the request is only guaranteed half of what it asked for.
\<close>

theorem body_pool_take_room:
  assumes "body_pool_inv mr p" and "body_pool_take want p = (x, p')"
    and "aq_items (dp_free p) = v # vs"
  shows "pooled_vec_deref x = Some (v\<lparr>vcap := max (vcap v) (want - vcap v)\<rparr>) \<and>
    want \<le> 2 * max (vcap v) (want - vcap v) \<and>
    (vcap v < want \<and> want < 2 * vcap v \<longrightarrow> max (vcap v) (want - vcap v) < want)"
proof -
  obtain r free where pop: "aq_pop (dp_free p) = (r, free)" by fastforce
  have ok: "aq_ok (dp_free p)" and nil: "vbytes v = []"
    using assms(1,3) by (simp_all add: body_pool_inv_def)
  have "r = Some v" using aq_pop_items [OF ok pop] assms(3) by (cases r) auto
  then have x: "pooled_vec_deref x = Some (vec_reserve_exact (want - vcap v) v)"
    using assms(2) pop by (auto simp: body_pool_take_def Let_def pooled_vec_deref_def)
  have "vec_reserve_exact (want - vcap v) v = v\<lparr>vcap := max (vcap v) (want - vcap v)\<rparr>"
    using nil by (cases v) (auto simp: vec_defs max_def)
  with x show ?thesis by (auto simp: max_def)
qed

theorem body_pool_take_room_witness:
  "\<exists>p :: (vec_u8 list \<times> nat) BodyPool. \<exists>x p'.
     body_pool_inv 1048576 p \<and> body_pool_take 6000 p = (x, p') \<and>
     map_option vcap (pooled_vec_deref x) = Some 4096"
proof -
  define p :: "(vec_u8 list \<times> nat) BodyPool" where
    "p = pooled_vec_drop \<lparr>pv_vec = Some \<lparr>vbytes = [], vcap = 4096\<rparr>\<rparr> (body_pool_new list_queue_new 2 1048576)"
  have new: "body_pool_inv 1048576 (body_pool_new list_queue_new 2 1048576)"
    using list_queue_new_ok [where 'a = vec_u8]
    by (simp add: aq_new_ok_def body_pool_inv_def body_pool_new_def del: list_queue_new_ok)
  have inv: "body_pool_inv 1048576 p" unfolding p_def using body_pool_put_keeps [OF new] by blast
  have items: "aq_items (dp_free p) = [\<lparr>vbytes = [], vcap = 4096\<rparr>]"
    by (simp add: p_def pooled_vec_drop_def body_pool_new_def list_queue_new_def aq_push_def
        aq_items_def vec_clear_def)
  obtain x p' where t: "body_pool_take 6000 p = (x, p')" by fastforce
  show ?thesis
    using body_pool_take_room [OF inv t items] inv t by auto
qed

end
