(* ===== verification/Httpsys_Response.thy ===== *)
theory Httpsys_Response
  imports Http_Types
begin

text \<open>
  \<open>crates/httpsys/src/response.rs\<close>: the response builder and the \<open>HTTP_RESPONSE_V2\<close> view of a
  response that http.sys reads.  Lengths keep the width of the C fields, so the casts of the code
  truncate as it does.
\<close>

section \<open>Response\<close>

record Response =
  resp_status :: u16
  resp_reason :: string
  resp_content_type :: "string option"
  resp_headers :: "(string \<times> string) list"
  resp_body :: "u8 list"
  resp_cache_seconds :: "u32 option"

definition OK :: u16 where "OK = 200"

definition NO_CONTENT :: u16 where "NO_CONTENT = 204"

definition BAD_REQUEST :: u16 where "BAD_REQUEST = 400"

definition NOT_FOUND :: u16 where "NOT_FOUND = 404"

definition METHOD_NOT_ALLOWED :: u16 where "METHOD_NOT_ALLOWED = 405"

definition PAYLOAD_TOO_LARGE :: u16 where "PAYLOAD_TOO_LARGE = 413"

definition HEADERS_TOO_LARGE :: u16 where "HEADERS_TOO_LARGE = 431"

definition INTERNAL_SERVER_ERROR :: u16 where "INTERNAL_SERVER_ERROR = 500"

definition SERVICE_UNAVAILABLE :: u16 where "SERVICE_UNAVAILABLE = 503"

definition reason_phrase :: "u16 \<Rightarrow> string" where
  "reason_phrase status =
     (if status = 200 then ''OK''
      else if status = 201 then ''Created''
      else if status = 202 then ''Accepted''
      else if status = 204 then ''No Content''
      else if status = 301 then ''Moved Permanently''
      else if status = 302 then ''Found''
      else if status = 304 then ''Not Modified''
      else if status = 400 then ''Bad Request''
      else if status = 401 then ''Unauthorized''
      else if status = 403 then ''Forbidden''
      else if status = 404 then ''Not Found''
      else if status = 405 then ''Method Not Allowed''
      else if status = 409 then ''Conflict''
      else if status = 413 then ''Content Too Large''
      else if status = 429 then ''Too Many Requests''
      else if status = 431 then ''Request Header Fields Too Large''
      else if status = 500 then ''Internal Server Error''
      else if status = 501 then ''Not Implemented''
      else if status = 502 then ''Bad Gateway''
      else if status = 503 then ''Service Unavailable''
      else if status = 504 then ''Gateway Timeout''
      else ''Unknown'')"

definition response_new :: "u16 \<Rightarrow> Response" where
  "response_new status =
     \<lparr>resp_status = status, resp_reason = reason_phrase status, resp_content_type = None,
      resp_headers = [], resp_body = [], resp_cache_seconds = None\<rparr>"

definition response_default :: Response where
  "response_default = response_new OK"

definition with_body :: "u8 list \<Rightarrow> Response \<Rightarrow> Response" where
  "with_body body r = r\<lparr>resp_body := body\<rparr>"

definition with_content_type :: "string \<Rightarrow> Response \<Rightarrow> Response" where
  "with_content_type content_type r = r\<lparr>resp_content_type := Some content_type\<rparr>"

definition with_header :: "string \<Rightarrow> string \<Rightarrow> Response \<Rightarrow> Response" where
  "with_header name value r = r\<lparr>resp_headers := resp_headers r @ [(name, value)]\<rparr>"

definition cache_in_kernel_for_secs :: "u32 \<Rightarrow> Response \<Rightarrow> Response" where
  "cache_in_kernel_for_secs seconds r = r\<lparr>resp_cache_seconds := Some seconds\<rparr>"

definition ok_json :: "u8 list \<Rightarrow> Response" where
  "ok_json body = with_body body (with_content_type ''application/json'' (response_new OK))"

definition ok_text :: "u8 list \<Rightarrow> Response" where
  "ok_text body = with_body body (with_content_type ''text/plain; charset=utf-8'' (response_new OK))"

section \<open>RawResponse\<close>

text \<open>The fields of \<open>HTTP_RESPONSE_V2\<close> the crate sets.  A pointer to an array is \<open>None\<close> when null.\<close>

record HTTP_RESPONSE_V2 =
  StatusCode :: u16
  Reason :: raw_bytes
  RespKnownHeaders :: "HTTP_HEADER_ID \<Rightarrow> raw_bytes"
  UnknownHeaderCount :: u16
  pUnknownHeaders :: "(raw_bytes \<times> raw_bytes) list option"
  RespEntityChunkCount :: u16
  pRespEntityChunks :: "HTTP_DATA_CHUNK option"

record RawResponse =
  raw :: HTTP_RESPONSE_V2
  chunk :: HTTP_DATA_CHUNK
  unknown :: "(raw_bytes \<times> raw_bytes) list"

definition zeroed_response :: HTTP_RESPONSE_V2 where
  "zeroed_response =
     \<lparr>StatusCode = 0, Reason = raw_null, RespKnownHeaders = (\<lambda>_. raw_null), UnknownHeaderCount = 0,
      pUnknownHeaders = None, RespEntityChunkCount = 0, pRespEntityChunks = None\<rparr>"

definition to_raw :: "Response \<Rightarrow> RawResponse" where
  "to_raw r =
     (let base = zeroed_response\<lparr>StatusCode := resp_status r,
            Reason := \<lparr>raw_len = as_u16 (length (resp_reason r)), raw_ptr = Some (resp_reason r)\<rparr>\<rparr>;
          base = (case resp_content_type r of
              None \<Rightarrow> base
            | Some content_type \<Rightarrow> base\<lparr>RespKnownHeaders := (RespKnownHeaders base)(HttpHeaderContentType :=
                \<lparr>raw_len = as_u16 (length content_type), raw_ptr = Some content_type\<rparr>)\<rparr>);
          unknown = map (\<lambda>(name, value).
              (\<lparr>raw_len = as_u16 (length name), raw_ptr = Some name\<rparr>,
               \<lparr>raw_len = as_u16 (length value), raw_ptr = Some value\<rparr>)) (resp_headers r);
          chunk = \<lparr>pBuffer = Some (resp_body r), BufferLength = as_u32 (length (resp_body r))\<rparr>
      in \<lparr>raw = base, chunk = chunk, unknown = unknown\<rparr>)"

definition as_ptr :: "RawResponse \<Rightarrow> HTTP_RESPONSE_V2" where
  "as_ptr self =
     (let base = raw self;
          base = (if BufferLength (chunk self) > 0
                  then base\<lparr>RespEntityChunkCount := 1, pRespEntityChunks := Some (chunk self)\<rparr> else base);
          base = (if unknown self \<noteq> []
                  then base\<lparr>UnknownHeaderCount := as_u16 (length (unknown self)),
                            pUnknownHeaders := Some (unknown self)\<rparr> else base)
      in base)"

section \<open>What the kernel reads\<close>

text \<open>A response as http.sys reads it: every text and the body by pointer and length, every array by
  pointer and count.\<close>

record wire_response =
  wire_status :: u16
  wire_reason :: string
  wire_content_type :: "string option"
  wire_headers :: "(string \<times> string) list"
  wire_body :: "u8 list"

definition wire_of :: "HTTP_RESPONSE_V2 \<Rightarrow> wire_response" where
  "wire_of b =
     \<lparr>wire_status = StatusCode b, wire_reason = raw_slice (Reason b),
      wire_content_type = map_option (take (unat (raw_len (RespKnownHeaders b HttpHeaderContentType))))
        (raw_ptr (RespKnownHeaders b HttpHeaderContentType)),
      wire_headers = map (\<lambda>(n, v). (raw_slice n, raw_slice v))
        (take (unat (UnknownHeaderCount b)) (case pUnknownHeaders b of None \<Rightarrow> [] | Some hs \<Rightarrow> hs)),
      wire_body =
        (if RespEntityChunkCount b = 0 then []
         else case pRespEntityChunks b of
           None \<Rightarrow> []
         | Some c \<Rightarrow> take (unat (BufferLength c)) (case pBuffer c of None \<Rightarrow> [] | Some m \<Rightarrow> m))\<rparr>"

text \<open>What the caller of the builder asked for.\<close>

definition response_view :: "Response \<Rightarrow> wire_response" where
  "response_view r =
     \<lparr>wire_status = resp_status r, wire_reason = reason_phrase (resp_status r),
      wire_content_type = resp_content_type r, wire_headers = resp_headers r, wire_body = resp_body r\<rparr>"

text \<open>A text whose length does not fit a 16-bit field keeps the remainder of its length.\<close>

definition clip16 :: "'a list \<Rightarrow> 'a list" where
  "clip16 s = take (length s mod 2 ^ 16) s"

definition clip32 :: "'a list \<Rightarrow> 'a list" where
  "clip32 s = take (length s mod 2 ^ 32) s"

text \<open>The lengths the C fields can carry.\<close>

definition resp_fits :: "Response \<Rightarrow> bool" where
  "resp_fits r \<longleftrightarrow>
     (case resp_content_type r of None \<Rightarrow> True | Some c \<Rightarrow> length c < 2 ^ 16) \<and>
     list_all (\<lambda>(n, v). length n < 2 ^ 16 \<and> length v < 2 ^ 16) (resp_headers r) \<and>
     length (resp_headers r) < 2 ^ 16 \<and> length (resp_body r) < 2 ^ 32"

section \<open>Building a response\<close>

datatype response_op =
    WithBody "u8 list" | WithContentType string | WithHeader string string | CacheFor u32

fun apply_op :: "response_op \<Rightarrow> Response \<Rightarrow> Response" where
  "apply_op (WithBody b) r = with_body b r"
| "apply_op (WithContentType c) r = with_content_type c r"
| "apply_op (WithHeader n v) r = with_header n v r"
| "apply_op (CacheFor s) r = cache_in_kernel_for_secs s r"

definition build :: "u16 \<Rightarrow> response_op list \<Rightarrow> Response" where
  "build status calls = fold apply_op calls (response_new status)"

section \<open>Lemmas\<close>

lemma raw_slice_clip:
  "raw_slice \<lparr>raw_len = as_u16 (length s), raw_ptr = Some s\<rparr> = clip16 s"
  by (simp add: raw_slice_def clip16_def unat_as_u16)

lemma clip16_id: "length s < 2 ^ 16 \<Longrightarrow> clip16 s = s"
  by (simp add: clip16_def)

lemma clip32_id: "length s < 2 ^ 32 \<Longrightarrow> clip32 s = s"
  by (simp add: clip32_def)

lemma reason_phrase_length: "length (reason_phrase status) \<le> 31"
  unfolding reason_phrase_def by (simp split: if_split)

text \<open>Everything http.sys reads of a response, for all responses.\<close>

lemma wire_of_to_raw:
  "wire_of (as_ptr (to_raw r)) =
     \<lparr>wire_status = resp_status r, wire_reason = clip16 (resp_reason r),
      wire_content_type = map_option clip16 (resp_content_type r),
      wire_headers = map (\<lambda>(n, v). (clip16 n, clip16 v)) (clip16 (resp_headers r)),
      wire_body = clip32 (resp_body r)\<rparr>"
proof -
  have clip: "take (unat (as_u16 (length s))) s = clip16 s" for s :: "'x list"
    by (simp add: clip16_def unat_as_u16)
  have hs: "map (\<lambda>(n, v). (raw_slice n, raw_slice v)) (take k (map (\<lambda>(n, v).
        (\<lparr>raw_len = as_u16 (length n), raw_ptr = Some n\<rparr>, \<lparr>raw_len = as_u16 (length v), raw_ptr = Some v\<rparr>)) xs))
      = map (\<lambda>(n, v). (clip16 n, clip16 v)) (take k xs)" for k xs
    by (simp add: take_map raw_slice_clip split_def)
  have body: "(if as_u32 (length b) > 0 then take (unat (as_u32 (length b))) b else []) = clip32 b"
    for b :: "u8 list"
    using as_u32_0_iff [of "length b"] by (auto simp: clip32_def unat_as_u32 word_gt_0)
  have empty: "clip16 [] = []" by (simp add: clip16_def)
  show ?thesis
    by (cases "resp_content_type r"; cases "resp_headers r = []")
       (auto simp: wire_of_def as_ptr_def to_raw_def zeroed_response_def Let_def raw_slice_clip clip hs body [symmetric]
         empty unat_as_u16 clip16_def)
qed

lemma entity_chunk_count:
  "RespEntityChunkCount (as_ptr (to_raw r)) = (if as_u32 (length (resp_body r)) = 0 then 0 else 1)"
  by (cases "resp_content_type r"; cases "resp_headers r = []"; cases "as_u32 (length (resp_body r)) = 0")
     (simp_all add: as_ptr_def to_raw_def zeroed_response_def Let_def word_gt_0)

text \<open>The arguments of the calls that set each field.\<close>

fun header_args :: "response_op list \<Rightarrow> (string \<times> string) list" where
  "header_args [] = []"
| "header_args (WithHeader n v # calls) = (n, v) # header_args calls"
| "header_args (_ # calls) = header_args calls"

fun body_arg :: "u8 list \<Rightarrow> response_op list \<Rightarrow> u8 list" where
  "body_arg b [] = b"
| "body_arg b (WithBody b' # calls) = body_arg b' calls"
| "body_arg b (_ # calls) = body_arg b calls"

fun content_type_arg :: "string option \<Rightarrow> response_op list \<Rightarrow> string option" where
  "content_type_arg c [] = c"
| "content_type_arg c (WithContentType c' # calls) = content_type_arg (Some c') calls"
| "content_type_arg c (_ # calls) = content_type_arg c calls"

lemmas builder_defs = with_body_def with_content_type_def with_header_def cache_in_kernel_for_secs_def

lemma fold_apply_op:
  "resp_status (fold apply_op calls r) = resp_status r"
  "resp_reason (fold apply_op calls r) = resp_reason r"
  "resp_headers (fold apply_op calls r) = resp_headers r @ header_args calls"
  "resp_body (fold apply_op calls r) = body_arg (resp_body r) calls"
  "resp_content_type (fold apply_op calls r) = content_type_arg (resp_content_type r) calls"
proof (induction calls arbitrary: r)
  case (Cons c calls)
  {
    case 1
    show ?case by (cases c) (simp_all add: Cons builder_defs)
  next
    case 2
    show ?case by (cases c) (simp_all add: Cons builder_defs)
  next
    case 3
    show ?case by (cases c) (simp_all add: Cons builder_defs)
  next
    case 4
    show ?case by (cases c) (simp_all add: Cons builder_defs)
  next
    case 5
    show ?case by (cases c) (simp_all add: Cons builder_defs)
  }
qed simp_all

lemma build_fields [simp]:
  "resp_status (build status calls) = status"
  "resp_reason (build status calls) = reason_phrase status"
  "resp_headers (build status calls) = header_args calls"
  "resp_body (build status calls) = body_arg [] calls"
  "resp_content_type (build status calls) = content_type_arg None calls"
  by (simp_all add: build_def fold_apply_op response_new_def)

lemma map_clip_id:
  "list_all (\<lambda>(n, v). length n < 2 ^ 16 \<and> length v < 2 ^ 16) hs \<Longrightarrow>
     map (\<lambda>(n, v). (clip16 n, clip16 v)) hs = hs"
  by (induction hs) (auto simp: clip16_id)

section \<open>Properties\<close>

text \<open>
  C7: what the caller builds is what http.sys sends.  Over any sequence of builder calls whose texts
  are shorter than 64 KiB, with fewer than 65536 headers and a body below 4 GiB, the structure
  \<open>to_raw\<close> and \<open>as_ptr\<close> assemble describes exactly the status and its reason phrase, the last content
  type set, all headers in the order they were added, and the last body set, with an entity
  chunk exactly when that body is not empty.
\<close>

theorem response_on_the_wire:
  assumes "resp_fits (build status calls)"
  shows "wire_of (as_ptr (to_raw (build status calls))) =
      \<lparr>wire_status = status, wire_reason = reason_phrase status, wire_content_type = content_type_arg None calls,
       wire_headers = header_args calls, wire_body = body_arg [] calls\<rparr> \<and>
    (RespEntityChunkCount (as_ptr (to_raw (build status calls))) = 0 \<longleftrightarrow> body_arg [] calls = [])"
proof -
  let ?r = "build status calls"
  have "length (reason_phrase status) < 2 ^ 16" using reason_phrase_length [of status] by simp
  moreover have "map_option clip16 (resp_content_type ?r) = resp_content_type ?r"
    using assms by (cases "resp_content_type ?r") (auto simp: resp_fits_def clip16_id)
  moreover have "as_u32 (length (body_arg [] calls)) = 0 \<longleftrightarrow> body_arg [] calls = []"
    using assms by (simp add: resp_fits_def as_u32_0_iff)
  ultimately show ?thesis using assms
    by (simp add: wire_of_to_raw entity_chunk_count resp_fits_def clip16_id clip32_id map_clip_id)
qed

theorem response_on_the_wire_witness:
  "wire_headers (wire_of (as_ptr (to_raw (build 200 [WithHeader ''X-A'' ''1'', WithBody [123, 125]])))) = [(''X-A'', ''1'')]"
proof -
  have "resp_fits (build 200 [WithHeader ''X-A'' ''1'', WithBody [123, 125]])" by (simp add: resp_fits_def)
  from response_on_the_wire [OF this] show ?thesis by simp
qed

text \<open>
  C27: a header value or a body that does not fit is cut, silently.  A value of 64 KiB or more is sent with
  its length reduced modulo 65536, so a value of exactly 65536 bytes is sent empty; a body of 4 GiB or
  more is sent with its length reduced modulo \<open>2 ^ 32\<close>, and without any entity chunk when nothing
  is left.
\<close>

theorem oversized_response_truncated:
  assumes "length name < 2 ^ 16" and "2 ^ 16 \<le> length value"
  shows "wire_headers (wire_of (as_ptr (to_raw (with_header name value (response_new status))))) =
      [(name, take (length value mod 2 ^ 16) value)] \<and> length value mod 2 ^ 16 < length value \<and>
    (2 ^ 32 \<le> length body \<longrightarrow>
       wire_body (wire_of (as_ptr (to_raw (with_body body (response_new status))))) = take (length body mod 2 ^ 32) body \<and>
       length body mod 2 ^ 32 < length body)"
proof -
  have "length value mod 2 ^ 16 < 2 ^ 16" by simp
  then have "length value mod 2 ^ 16 < length value" using assms(2) by linarith
  moreover have "length body mod 2 ^ 32 < length body" if "2 ^ 32 \<le> length body"
  proof -
    have "length body mod 2 ^ 32 < 2 ^ 32" by simp
    then show ?thesis using that by linarith
  qed
  moreover have "clip16 [(name, value)] = [(name, value)]" by (rule clip16_id) simp
  ultimately show ?thesis using assms(1)
    by (simp add: wire_of_to_raw builder_defs response_new_def clip16_id)
       (simp add: clip16_def clip32_def)
qed

theorem oversized_response_truncated_witness:
  "wire_headers (wire_of (as_ptr (to_raw (with_header ''X'' (replicate 65536 (CHR ''a'')) (response_new 200))))) = [(''X'', [])]"
  using oversized_response_truncated [of "''X''" "replicate 65536 (CHR ''a'')" 200] by simp

end
