(* ===== verification/Httpsys_Queue.thy ===== *)
theory Httpsys_Queue
  imports Httpsys_Init Httpsys_Iocp Httpsys_Buffer Httpsys_Response
begin

text \<open>
  \<open>crates/httpsys/src/queue.rs\<close>: the request queue.  Its life (\<open>new\<close>, \<open>drop\<close>, properties) is a
  computation over the history of system calls.  Its I/O calls run against an \<open>http_api\<close>: what
  http.sys does with one submission, that is, the submission record that \<open>Op::finish\<close> resolves
  (\<open>op_finish\<close>, which every interleaving of the operation was shown to return), what it writes into the
  caller's memory, and its next state.
\<close>

definition ERROR_HANDLE_EOF :: u32 where
  "ERROR_HANDLE_EOF = 38"

definition ERROR_MORE_DATA :: u32 where
  "ERROR_MORE_DATA = 234"

record ReceiveMode =
  copy_body :: bool

definition receive_mode_default :: ReceiveMode where
  "receive_mode_default = \<lparr>copy_body = True\<rparr>"

record RequestQueue =
  handle :: u64
  op_slots :: nat
  io :: IoPort
  skip_on_success :: bool

section \<open>Opening and closing\<close>

definition request_queue_new :: "kernel \<Rightarrow> nat \<Rightarrow> nat \<Rightarrow> RequestQueue result ffi" where
  "request_queue_new K io_threads concurrency =
     try_bind (check_call K HttpCreateRequestQueue) (\<lambda>h.
       try_bind (io_port_new K io_threads) (\<lambda>p.
         do { a \<leftarrow> associate K p h;
              case a of
                Inr skip \<Rightarrow>
                  State_Monad.return (Inr \<lparr>handle = h, op_slots = concurrency * 2, io = p, skip_on_success = skip\<rparr>)
              | Inl e \<Rightarrow>
                  do { u \<leftarrow> call_ignored K (HttpCloseRequestQueue h);
                       v \<leftarrow> io_port_drop K p;
                       State_Monad.return (Inl e) } }))"

definition bind_url_group :: "kernel \<Rightarrow> RequestQueue \<Rightarrow> UrlGroup \<Rightarrow> unit result ffi" where
  "bind_url_group K q g = bind_to_queue K g (handle q)"

definition set_queue_length :: "kernel \<Rightarrow> RequestQueue \<Rightarrow> u32 \<Rightarrow> unit result ffi" where
  "set_queue_length K q requests =
     try_bind (check_call K (HttpSetRequestQueueProperty (handle q) requests)) (\<lambda>_. State_Monad.return (Inr ()))"

definition shutdown :: "kernel \<Rightarrow> RequestQueue \<Rightarrow> unit result ffi" where
  "shutdown K q =
     try_bind (check_call K (HttpShutdownRequestQueue (handle q))) (\<lambda>_. State_Monad.return (Inr ()))"

text \<open>The body of \<open>drop\<close>, then the drop of the fields, \<open>_io\<close> among them.\<close>

definition request_queue_drop :: "kernel \<Rightarrow> RequestQueue \<Rightarrow> unit ffi" where
  "request_queue_drop K q =
     do { u \<leftarrow> call_ignored K (HttpCloseRequestQueue (handle q)); io_port_drop K (io q) }"

section \<open>I/O\<close>

record 'k http_api =
  HttpReceiveHttpRequest :: "u64 \<Rightarrow> bool \<Rightarrow> u32 \<Rightarrow> 'k \<Rightarrow> submission \<times> HTTP_REQUEST_V2 \<times> 'k"
  HttpReceiveRequestEntityBody :: "u64 \<Rightarrow> u32 \<Rightarrow> 'k \<Rightarrow> submission \<times> u8 list \<times> 'k"
  HttpSendHttpResponse :: "u64 \<Rightarrow> HTTP_RESPONSE_V2 \<Rightarrow> u32 option \<Rightarrow> 'k \<Rightarrow> submission \<times> 'k"

text \<open>\<open>receive_once\<close>, with the buffer and \<open>needed\<close> it leaves.\<close>

definition receive_once ::
  "'w ov_env \<Rightarrow> 'k http_api \<Rightarrow> RequestQueue \<Rightarrow> RequestBuffer \<Rightarrow> u64 \<Rightarrow> bool \<Rightarrow> u32 \<Rightarrow> 'k \<Rightarrow>
   unit result \<times> RequestBuffer \<times> u32 \<times> 'k" where
  "receive_once W A q b request_id flag_copy needed k =
     (case HttpReceiveHttpRequest A request_id flag_copy (capacity b) k of
        (sb, filled, k') \<Rightarrow>
          (res_map (\<lambda>_. ()) (op_finish W (skip_on_success q) sb),
           (prepare b)\<lparr>contents := filled\<rparr>,
           if sub_ec sb = ERROR_MORE_DATA then sub_bytes sb else needed,
           k'))"

text \<open>The second half of \<open>receive\<close>: the headers-only call and what its result means.\<close>

definition receive_headers ::
  "'w ov_env \<Rightarrow> 'k http_api \<Rightarrow> RequestQueue \<Rightarrow> nat \<Rightarrow> nat \<Rightarrow> RequestBuffer \<Rightarrow> ReceiveMode \<Rightarrow> u64 \<Rightarrow> u32 \<Rightarrow> 'k \<Rightarrow>
   unit result \<times> RequestBuffer \<times> ReceiveMode \<times> 'k" where
  "receive_headers W A q sz mx b mode request_id needed k =
     (case receive_once W A q b request_id False needed k of
        (r, b', needed', k') \<Rightarrow>
          (case r of
             Inr u \<Rightarrow> (case fit_body sz mx b' of (fits, b'') \<Rightarrow> (Inr (), b'', mode\<lparr>copy_body := fits\<rparr>, k'))
           | Inl e \<Rightarrow>
               if e = Win32 ERROR_MORE_DATA then (Inl (HeadersTooLarge needed'), b', mode, k')
               else (Inl e, b', mode, k')))"

definition receive ::
  "'w ov_env \<Rightarrow> 'k http_api \<Rightarrow> RequestQueue \<Rightarrow> nat \<Rightarrow> nat \<Rightarrow> RequestBuffer \<Rightarrow> ReceiveMode \<Rightarrow> 'k \<Rightarrow>
   unit result \<times> RequestBuffer \<times> ReceiveMode \<times> 'k" where
  "receive W A q sz mx b mode k =
     (if copy_body mode then
        (case receive_once W A q b 0 True 0 k of
           (r, b', needed, k') \<Rightarrow>
             if r = Inl (Win32 ERROR_MORE_DATA) then
               receive_headers W A q sz mx b' (mode\<lparr>copy_body := False\<rparr>) (buffer_request_id b') needed k'
             else (r, b', mode, k'))
      else receive_headers W A q sz mx b mode 0 0 k)"

text \<open>The byte count of a read, and the bytes that landed at the front of \<open>dst\<close>.\<close>

definition read_entity_body ::
  "'w ov_env \<Rightarrow> 'k http_api \<Rightarrow> RequestQueue \<Rightarrow> u64 \<Rightarrow> nat \<Rightarrow> 'k \<Rightarrow> nat option result \<times> u8 list \<times> 'k" where
  "read_entity_body W A q request_id dst_len k =
     (if dst_len = 0 then (Inr (Some 0), [], k)
      else case HttpReceiveRequestEntityBody A request_id (as_u32 dst_len) k of
        (sb, got, k') \<Rightarrow>
          (case op_finish W (skip_on_success q) sb of
             Inr n \<Rightarrow> (Inr (Some (unat n)), got, k')
           | Inl e \<Rightarrow> if e = Win32 ERROR_HANDLE_EOF then (Inr None, got, k') else (Inl e, got, k')))"

definition send_response ::
  "'w ov_env \<Rightarrow> 'k http_api \<Rightarrow> RequestQueue \<Rightarrow> u64 \<Rightarrow> Response \<Rightarrow> 'k \<Rightarrow> u32 result \<times> 'k" where
  "send_response W A q request_id response k =
     (case HttpSendHttpResponse A request_id (as_ptr (to_raw response)) (resp_cache_seconds response) k of
        (sb, k') \<Rightarrow> (op_finish W (skip_on_success q) sb, k'))"

section \<open>Resources\<close>

definition queue_held :: "RequestQueue \<Rightarrow> resource multiset" where
  "queue_held q = add_mset (RQueue (handle q)) (port_held (io q))"

lemma request_queue_drop_live:
  "live (snd (run_state (request_queue_drop K q) l)) = live l - queue_held q"
  by (simp add: request_queue_drop_def io_port_drop_live live_step_def queue_held_def)

lemma associate_live_pair: "run_state (associate K p file) l = (r, l') \<Longrightarrow> live l' = live l"
  using associate_live [of K p "file" l] by (simp add: live_after_def)

text \<open>What each outcome of \<open>new\<close> leaves open.\<close>

lemma request_queue_new_live:
  assumes "run_state (request_queue_new K n c) l = (r, l')"
  shows "case r of
      Inr q \<Rightarrow> live l' = queue_held q + live l
    | Inl e \<Rightarrow> live l' = live l \<or> (\<exists>h. live l' = add_mset (RQueue h) (live l))"
proof -
  let ?l1 = "l @ [(HttpCreateRequestQueue, K l HttpCreateRequestQueue)]"
  show ?thesis
  proof (cases "rc (K l HttpCreateRequestQueue) = 0")
    case False
    then show ?thesis using assms by (auto simp: request_queue_new_def ffi_runs live_step_def)
  next
    case True
    let ?h = "out (K l HttpCreateRequestQueue)"
    have l1: "live ?l1 = add_mset (RQueue ?h) (live l)" using True by (simp add: live_step_def)
    obtain pr l2 where p: "run_state (io_port_new K n) ?l1 = (pr, l2)" by fastforce
    show ?thesis
    proof (cases pr)
      case (Inl e)
      then have "r = Inl e" "l' = l2" using assms True p by (simp_all add: request_queue_new_def ffi_runs)
      moreover have "live l2 = live ?l1" using io_port.new_err p Inl by blast
      ultimately show ?thesis using l1 by auto
    next
      case (Inr p')
      obtain a l3 where a: "run_state (associate K p' ?h) l2 = (a, l3)" by fastforce
      have l3: "live l3 = port_held p' + live ?l1"
        using io_port.new_ok p Inr associate_live_pair [OF a] by metis
      show ?thesis
      proof (cases a)
        case (Inr skip)
        then show ?thesis using assms True p \<open>pr = Inr p'\<close> a l1 l3
          by (auto simp: request_queue_new_def ffi_runs queue_held_def)
      next
        case (Inl e)
        then have "isl r" and "live l' = live l3 - {#RQueue ?h#} - port_held p'"
          using assms True p \<open>pr = Inr p'\<close> a
            io_port_drop_live [of K p' "l3 @ [(HttpCloseRequestQueue ?h, K l3 (HttpCloseRequestQueue ?h))]"]
          by (auto simp: request_queue_new_def ffi_runs live_step_def split: prod.splits)
        then show ?thesis using l1 l3 by (auto simp: isl_def)
      qed
    qed
  qed
qed

section \<open>Receiving\<close>

text \<open>What http.sys documents of a receive: a request that is received, or that is left in the queue
  because it does not fit, has an identifier, and it is the one that was asked for, if any.\<close>

definition receive_api_ok :: "'w ov_env \<Rightarrow> bool \<Rightarrow> 'k http_api \<Rightarrow> bool" where
  "receive_api_ok W skip A \<longleftrightarrow>
     (\<forall>i flag cap k sb filled k'.
        HttpReceiveHttpRequest A i flag cap k = (sb, filled, k') \<longrightarrow>
        op_finish W skip sb = Inl (Win32 ERROR_MORE_DATA) \<or> \<not> isl (op_finish W skip sb) \<longrightarrow>
        RequestId filled \<noteq> 0 \<and> (i \<noteq> 0 \<longrightarrow> RequestId filled = i))"

lemma receive_api_okD:
  assumes "receive_api_ok W skip A" and "HttpReceiveHttpRequest A i flag cap k = (sb, filled, k')"
    and "op_finish W skip sb = Inl (Win32 ERROR_MORE_DATA) \<or> op_finish W skip sb = Inr n"
  shows "RequestId filled \<noteq> 0" and "i \<noteq> 0 \<Longrightarrow> RequestId filled = i"
  using assms unfolding receive_api_ok_def by (metis sum.disc(2))+

lemma fit_body_contents:
  assumes "buffer_ok sz mx b" and "max mx (sz + 8) + 8 \<le> 2 ^ 32" and "fit_body sz mx b = (f, b')"
  shows "b' = b \<or> words b < words b' \<and> contents b' = zeroed_request"
proof -
  have cap: "unat (capacity b) = words b * 8" using buffer_ok_capacity assms(1,2) .
  have "words b < words (request_buffer_new sz n) \<and> contents (request_buffer_new sz n) = zeroed_request"
    if "words b * 8 < n" for n
    using new_words_ge(1) [of n sz] that by (simp add: request_buffer_new_def Let_def)
  then show ?thesis using assms(3) cap
    by (auto simp: fit_body_def grow_to_def Let_def split: option.splits if_splits)
qed

text \<open>What the headers-only half guarantees, whatever it was called with.\<close>

definition received :: "RequestBuffer \<Rightarrow> unit result \<Rightarrow> RequestBuffer \<Rightarrow> bool" where
  "received b r b' \<longleftrightarrow>
     (case r of
        Inr u \<Rightarrow> words b' = words b \<and> buffer_request_id b' \<noteq> 0 \<or> words b < words b' \<and> contents b' = zeroed_request
      | Inl (HeadersTooLarge n) \<Rightarrow> words b' = words b \<and> buffer_request_id b' \<noteq> 0
      | Inl (Win32 c) \<Rightarrow> words b' = words b \<and> c \<noteq> ERROR_MORE_DATA
      | Inl QueueClosed \<Rightarrow> False)"

lemma op_finish_win32: "op_finish W skip sb = Inl e \<Longrightarrow> \<exists>c. e = Win32 c"
  by (auto simp: op_finish_def Let_def split: if_splits)

lemma receive_headers_received:
  assumes api: "receive_api_ok W (skip_on_success q) A" and ok: "buffer_ok sz mx b" "max mx (sz + 8) + 8 \<le> 2 ^ 32"
    and run: "receive_headers W A q sz mx b mode i needed k = (r, b', mode', k')"
  shows "received b r b'"
proof -
  obtain sb filled k1 where call: "HttpReceiveHttpRequest A i False (capacity b) k = (sb, filled, k1)"
    by (cases "HttpReceiveHttpRequest A i False (capacity b) k") auto
  let ?b = "(prepare b)\<lparr>contents := filled\<rparr>"
  note f = receive_api_okD [OF api call]
  show ?thesis
  proof (cases "op_finish W (skip_on_success q) sb")
    case (Inl e)
    then obtain c where c: "e = Win32 c" using op_finish_win32 by blast
    then show ?thesis using run call Inl f(1)
      by (auto simp: receive_headers_def receive_once_def received_def buffer_request_id_def split: if_splits)
  next
    case (Inr n)
    obtain ft b2 where fit: "fit_body sz mx ?b = (ft, b2)" by fastforce
    have "buffer_ok sz mx ?b" using ok(1) by (simp add: buffer_ok_def)
    from fit_body_contents [OF this ok(2) fit] f(1) Inr
    have "received b (Inr ()) b2" by (auto simp: received_def buffer_request_id_def)
    moreover have "r = Inr ()" "b' = b2"
      using run call Inr fit by (simp_all add: receive_headers_def receive_once_def)
    ultimately show ?thesis by simp
  qed
qed

lemma buffer_ok_contents: "buffer_ok sz mx ((prepare b)\<lparr>contents := c\<rparr>) \<longleftrightarrow> buffer_ok sz mx b"
  by (simp add: buffer_ok_def)

lemma receive_received:
  assumes api: "receive_api_ok W (skip_on_success q) A" and ok: "buffer_ok sz mx b" "max mx (sz + 8) + 8 \<le> 2 ^ 32"
    and run: "receive W A q sz mx b mode k = (r, b', mode', k')"
  shows "received b r b'"
proof (cases "copy_body mode")
  case False
  then show ?thesis using receive_headers_received [OF api ok] run by (simp add: receive_def)
next
  case True
  obtain sb filled k1 where call: "HttpReceiveHttpRequest A 0 True (capacity b) k = (sb, filled, k1)"
    by (cases "HttpReceiveHttpRequest A 0 True (capacity b) k") auto
  let ?b = "(prepare b)\<lparr>contents := filled\<rparr>"
  have okb: "buffer_ok sz mx ?b" using ok(1) by (simp add: buffer_ok_contents)
  note f = receive_api_okD [OF api call]
  show ?thesis
  proof (cases "op_finish W (skip_on_success q) sb = Inl (Win32 ERROR_MORE_DATA)")
    case True
    with \<open>copy_body mode\<close> run call obtain needed where
      "receive_headers W A q sz mx ?b (mode\<lparr>copy_body := False\<rparr>) (buffer_request_id ?b) needed k1 = (r, b', mode', k')"
      by (simp add: receive_def receive_once_def)
    then have "received ?b r b'" by (rule receive_headers_received [OF api okb ok(2)])
    moreover have "words ?b = words b" by simp
    ultimately show ?thesis unfolding received_def by (simp only:)
  next
    case False
    then have eqs: "r = res_map (\<lambda>_. ()) (op_finish W (skip_on_success q) sb)" "b' = ?b"
      using \<open>copy_body mode\<close> run call
      by (cases "op_finish W (skip_on_success q) sb"; auto simp: receive_def receive_once_def)+
    show ?thesis
    proof (cases "op_finish W (skip_on_success q) sb")
      case (Inl e)
      then show ?thesis using op_finish_win32 False eqs by (fastforce simp: received_def)
    next
      case (Inr n)
      then show ?thesis using f(1) eqs by (simp add: received_def buffer_request_id_def)
    qed
  qed
qed

text \<open>A kernel that refuses to create a completion port, and an API whose only request declares 64 KiB
  and never fits with its body.\<close>

definition portless_kernel :: kernel where
  "portless_kernel = (\<lambda>l c. case c of
       CreateIoCompletionPort file p key n \<Rightarrow> \<lparr>rc = 0x80070008, out = 0, os_error = None\<rparr>
     | _ \<Rightarrow> \<lparr>rc = 0, out = 8, os_error = None\<rparr>)"

definition willing_kernel :: kernel where
  "willing_kernel = (\<lambda>l c. \<lparr>rc = 0, out = 8, os_error = None\<rparr>)"

definition upload_api :: "unit http_api" where
  "upload_api =
     \<lparr>HttpReceiveHttpRequest = (\<lambda>i flag cap k.
        (\<lparr>sub_ec = (if flag \<and> unat cap < 70000 then ERROR_MORE_DATA else 0), sub_bytes = 66000, sub_status = 0, sub_len = 0\<rparr>,
         upload_request\<lparr>RequestId := (if i = 0 then 7 else i)\<rparr>, k)),
      HttpReceiveRequestEntityBody = (\<lambda>i n k.
        (\<lparr>sub_ec = ERROR_HANDLE_EOF, sub_bytes = 0, sub_status = 0, sub_len = 0\<rparr>, [], k)),
      HttpSendHttpResponse = (\<lambda>i r c k. (\<lparr>sub_ec = 0, sub_bytes = 0, sub_status = 0, sub_len = 0\<rparr>, k))\<rparr>"

definition test_queue :: RequestQueue where
  "test_queue = \<lparr>handle = 8, op_slots = 4, io = \<lparr>port = 9, threads = [0]\<rparr>, skip_on_success = True\<rparr>"

lemma upload_api_ok: "receive_api_ok W skip upload_api"
  by (simp add: receive_api_ok_def upload_api_def)

lemma for_each_extends: "\<exists>m. snd (run_state (for_each (\<lambda>x. call_ignored K (f x)) xs) l) = l @ m"
proof (induction xs arbitrary: l)
  case (Cons x xs)
  from Cons.IH [of "l @ [(f x, K l (f x))]"] show ?case by auto
qed simp

lemma io_port_drop_extends: "\<exists>m. snd (run_state (io_port_drop K p) l) = l @ m"
proof -
  let ?posts = "for_each (\<lambda>_. call_ignored K (PostQueuedCompletionStatus (port p) 0 SHUTDOWN_KEY))
      [0..<length (threads p)]"
  let ?joins = "for_each (\<lambda>t. call_ignored K (JoinThread t)) (threads p)"
  obtain l1 where l1: "run_state ?posts l = ((), l1)" by (cases "run_state ?posts l") simp
  obtain l2 where l2: "run_state ?joins l1 = ((), l2)" by (cases "run_state ?joins l1") simp
  obtain m1 where "l1 = l @ m1" 
    using for_each_extends [of K "\<lambda>_. PostQueuedCompletionStatus (port p) 0 SHUTDOWN_KEY" "[0..<length (threads p)]" l] l1
    by auto
  moreover obtain m2 where "l2 = l1 @ m2" using for_each_extends [of K JoinThread "threads p" l1] l2 by auto
  moreover have "snd (run_state (io_port_drop K p) l) = l2 @ [(CloseHandle (port p), K l2 (CloseHandle (port p)))]"
    by (simp add: io_port_drop_def l1 l2)
  ultimately show ?thesis by simp
qed

section \<open>Properties\<close>

text \<open>
  C12: a receive never reports a request it does not hold.  For a buffer of a size the pool allows and a
  kernel that names the requests it delivers: when \<open>receive\<close> succeeds, the buffer holds an identified
  request, unless the buffer had to grow for the next one, in which case it is blank; when it answers that the
  headers are too large, the buffer still names the request to reject; and a raw \<open>ERROR_MORE_DATA\<close>
  is never returned to the caller, whichever mode the slot was in.
\<close>

theorem receive_holds_request:
  assumes "receive_api_ok W (skip_on_success q) A" and "buffer_ok sz mx b" and "max mx (sz + 8) + 8 \<le> 2 ^ 32"
    and "receive W A q sz mx b mode k = (r, b', mode', k')"
  shows "case r of
        Inr u \<Rightarrow> words b' = words b \<and> buffer_request_id b' \<noteq> 0 \<or> words b < words b' \<and> contents b' = zeroed_request
      | Inl (HeadersTooLarge n) \<Rightarrow> words b' = words b \<and> buffer_request_id b' \<noteq> 0
      | Inl (Win32 c) \<Rightarrow> words b' = words b \<and> c \<noteq> ERROR_MORE_DATA
      | Inl QueueClosed \<Rightarrow> False"
  using receive_received [OF assms] unfolding received_def .

theorem receive_holds_request_witness:
  "let (r, b', mode', k') = receive flag_env upload_api test_queue 864 131072 (request_buffer_new 864 81920)
       receive_mode_default () in
   r = Inr () \<and> buffer_request_id b' = 7"
proof -
  let ?b = "request_buffer_new 864 81920"
  obtain r b' mode' k' where run: "receive flag_env upload_api test_queue 864 131072 ?b receive_mode_default () = (r, b', mode', k')"
    by (rule prod_cases4)
  have ok: "buffer_ok 864 131072 ?b" by (rule buffer_ok_new) simp
  have "unat (capacity ?b) = 81920" by (simp add: capacity_def request_buffer_new_def Let_def div_ceil_def unat_as_u32)
  then have eqs: "r = Inr ()" "b' = (prepare ?b)\<lparr>contents := upload_request\<lparr>RequestId := 7\<rparr>\<rparr>"
    using run by (simp_all add: receive_def receive_once_def receive_mode_default_def upload_api_def op_finish_def
        test_queue_def ERROR_MORE_DATA_def)
  from receive_holds_request [OF upload_api_ok ok _ run] eqs run show ?thesis
    by (simp add: buffer_request_id_def)
qed

text \<open>
  the receive mode settles.  After a headers-only receive that succeeds for a request declaring a body of
  \<open>d\<close> bytes, the slot asks for the body with the headers the next time exactly when such a body and the header
  slack fit under the ceiling, and then its buffer has room for both, so a connection that keeps sending
  bodies of that size is not received twice again.
\<close>

lemma receive_mode_settles:
  assumes "buffer_ok sz mx b" and "max mx (sz + 8) + 8 \<le> 2 ^ 32"
    and "HttpReceiveHttpRequest A i False (capacity b) k = (sb, filled, k')"
    and "op_finish W (skip_on_success q) sb = Inr n"
    and "declared_body_len (b\<lparr>contents := filled\<rparr>) = Some d"
    and "receive_headers W A q sz mx b mode i needed k = (r, b', mode', k'')"
  shows "r = Inr () \<and> (copy_body mode' \<longleftrightarrow> d + HEADER_SLACK \<le> mx) \<and>
    (copy_body mode' \<longrightarrow> d + HEADER_SLACK \<le> unat (capacity b')) \<and> buffer_ok sz mx b'"
proof -
  let ?b = "b\<lparr>contents := filled\<rparr>"
  have pb: "(prepare b)\<lparr>contents := filled\<rparr> = ?b" by (simp add: prepare_def)
  obtain f b2 where fit: "fit_body sz mx ?b = (f, b2)" by fastforce
  have "buffer_ok sz mx ?b" using assms(1) by (simp add: buffer_ok_def)
  from fit_body_room [OF this assms(2,5) fit] show ?thesis
    using assms(3,4,6) fit by (auto simp: receive_headers_def receive_once_def pb)
qed

text \<open>
  C26: the size reported with oversized headers.  When http.sys refuses a headers-only receive at the
  call, \<open>HeadersTooLarge\<close> carries the size it reported; when the same refusal comes back through the
  completion port, it carries the value left from before, zero in a fresh receive, although the
  request is the same.
\<close>

theorem headers_too_large_size:
  assumes "HttpReceiveHttpRequest A 0 False (capacity b) k = (sb, filled, k')" and "\<not> copy_body mode"
    and "if async then sub_ec sb = ERROR_IO_PENDING \<and> deliver_status W (sub_status sb) = ERROR_MORE_DATA
         else sub_ec sb = ERROR_MORE_DATA"
  shows "fst (receive W A q sz mx b mode k) = Inl (HeadersTooLarge (if async then 0 else sub_bytes sb))"
  using assms
  by (auto simp: receive_def receive_headers_def receive_once_def op_finish_def ERROR_MORE_DATA_def
      ERROR_IO_PENDING_def split: if_splits)

theorem headers_too_large_size_witness:
  "let A = upload_api\<lparr>HttpReceiveHttpRequest := (\<lambda>i flag cap k.
        (\<lparr>sub_ec = ERROR_IO_PENDING, sub_bytes = 0, sub_status = ERROR_MORE_DATA, sub_len = 20000\<rparr>, upload_request, k))\<rparr>
   in fst (receive flag_env A test_queue 864 131072 (request_buffer_new 864 16384) \<lparr>copy_body = False\<rparr> ()) =
      Inl (HeadersTooLarge 0)"
proof -
  let ?A = "upload_api\<lparr>HttpReceiveHttpRequest := (\<lambda>i flag cap k.
        (\<lparr>sub_ec = ERROR_IO_PENDING, sub_bytes = 0, sub_status = ERROR_MORE_DATA, sub_len = 20000\<rparr>, upload_request, k))\<rparr>"
  have st: "deliver_status flag_env ERROR_MORE_DATA = ERROR_MORE_DATA" by code_simp
  from headers_too_large_size [where A = ?A and async = True and W = flag_env and b = "request_buffer_new 864 16384"
      and k = "()" and mode = "\<lparr>copy_body = False\<rparr>" and q = test_queue and sz = 864 and mx = 131072] st
  show ?thesis by simp
qed

text \<open>
  a queue that opens can be closed again.  When \<open>RequestQueue::new\<close> succeeds, exactly its queue handle,
  its port and its threads are open in addition; dropping the queue closes the handle first, while the
  completion threads still run, and in the end releases everything \<open>new\<close> acquired.
\<close>

lemma request_queue_open_close:
  assumes "run_state (request_queue_new K n c) l = (Inr q, l')"
  shows "live l' = queue_held q + live l \<and> live_after (request_queue_drop K q) l' = live l \<and>
    take (Suc (length l')) (snd (run_state (request_queue_drop K q) l')) =
      l' @ [(HttpCloseRequestQueue (handle q), K l' (HttpCloseRequestQueue (handle q)))]"
proof -
  have live: "live l' = queue_held q + live l" using request_queue_new_live [OF assms] by simp
  let ?l = "l' @ [(HttpCloseRequestQueue (handle q), K l' (HttpCloseRequestQueue (handle q)))]"
  obtain m where m: "snd (run_state (io_port_drop K (io q)) ?l) = ?l @ m"
    using io_port_drop_extends by blast
  then show ?thesis using live request_queue_drop_live [of K q l']
    by (simp add: live_after_def request_queue_drop_def)
qed

text \<open>
  C25: a queue handle is leaked when the completion port cannot be created.  If http.sys creates the queue
  and \<open>IoPort::new\<close> then fails for whatever reason, \<open>RequestQueue::new\<close> returns the error and the handle
  of the new queue stays open, with no owner left to close it.
\<close>

theorem request_queue_new_leaks:
  assumes "rc (K l HttpCreateRequestQueue) = 0"
    and "run_state (io_port_new K n) (l @ [(HttpCreateRequestQueue, K l HttpCreateRequestQueue)]) = (Inl e, l2)"
  shows "run_state (request_queue_new K n c) l = (Inl e, l2) \<and>
    live l2 = add_mset (RQueue (out (K l HttpCreateRequestQueue))) (live l)"
  using io_port.new_err [OF assms(2)] assms by (simp add: request_queue_new_def ffi_runs live_step_def)

theorem request_queue_new_leaks_witness:
  "live (snd (run_state (request_queue_new portless_kernel 4 64) [])) = {#RQueue 8#}"
proof -
  let ?l1 = "[(HttpCreateRequestQueue, portless_kernel [] HttpCreateRequestQueue)]"
  obtain e l2 where "run_state (io_port_new portless_kernel 4) ([] @ ?l1) = (Inl e, l2)"
    by (simp add: io_port_new_def ffi_runs portless_kernel_def)
  moreover have "rc (portless_kernel [] HttpCreateRequestQueue) = 0" by (simp add: portless_kernel_def)
  ultimately show ?thesis using request_queue_new_leaks [of portless_kernel "[]" 4 e l2 64]
    by (simp add: portless_kernel_def)
qed

end
