(* ===== verification/Httpsys_Request.thy ===== *)
theory Httpsys_Request
  imports Httpsys_Queue
begin

text \<open>
  \<open>crates/httpsys/src/request.rs\<close>: the cooked view of a received request and the reading of its body.
  A \<open>Request\<close> is the receive buffer it owns; the queue and the pool of body buffers it also refers to are
  passed along.  \<open>verb_debug\<close> stands for the \<open>Debug\<close> text of an \<open>HTTP_VERB\<close>, which the \<open>windows\<close> crate
  defines.
\<close>

definition MAX_BODY_RESERVE :: nat where
  "MAX_BODY_RESERVE = 8 * 1024 * 1024"

definition BODY_CHUNK_BYTES :: nat where
  "BODY_CHUNK_BYTES = 256 * 1024"

text \<open>The value the Windows headers document for the flag.\<close>

definition HTTP_REQUEST_FLAG_MORE_ENTITY_BODY_EXISTS :: u32 where
  "HTTP_REQUEST_FLAG_MORE_ENTITY_BODY_EXISTS = 1"

section \<open>Methods\<close>

datatype Method =
    Method_Get | Method_Post | Method_Put | Method_Delete | Method_Head | Method_Options
  | Method_Patch | Method_Trace | Method_Connect | Method_Other string

definition method_from_str :: "string \<Rightarrow> Method" where
  "method_from_str s =
     (if s = ''GET'' then Method_Get
      else if s = ''POST'' then Method_Post
      else if s = ''PUT'' then Method_Put
      else if s = ''DELETE'' then Method_Delete
      else if s = ''HEAD'' then Method_Head
      else if s = ''OPTIONS'' then Method_Options
      else if s = ''PATCH'' then Method_Patch
      else if s = ''TRACE'' then Method_Trace
      else if s = ''CONNECT'' then Method_Connect
      else Method_Other s)"

section \<open>Accessors\<close>

record Request =
  req_buffer :: RequestBuffer

definition base :: "Request \<Rightarrow> HTTP_REQUEST_V2" where
  "base r = contents (req_buffer r)"

definition url_context :: "Request \<Rightarrow> u64" where
  "url_context r = UrlContext (base r)"

definition request_id :: "Request \<Rightarrow> u64" where
  "request_id r = RequestId (base r)"

definition connection_id :: "Request \<Rightarrow> u64" where
  "connection_id r = ConnectionId (base r)"

definition request_method :: "(HTTP_VERB \<Rightarrow> string) \<Rightarrow> Request \<Rightarrow> Method" where
  "request_method verb_debug r =
     (if raw_len (UnknownVerb (base r)) > 0 then method_from_str (from_utf8_lossy (raw_slice (UnknownVerb (base r))))
      else case Verb (base r) of
        HttpVerbGET \<Rightarrow> Method_Get
      | HttpVerbPOST \<Rightarrow> Method_Post
      | HttpVerbPUT \<Rightarrow> Method_Put
      | HttpVerbDELETE \<Rightarrow> Method_Delete
      | HttpVerbHEAD \<Rightarrow> Method_Head
      | HttpVerbOPTIONS \<Rightarrow> Method_Options
      | HttpVerbTRACE \<Rightarrow> Method_Trace
      | HttpVerbCONNECT \<Rightarrow> Method_Connect
      | v \<Rightarrow> Method_Other (verb_debug v))"

definition url :: "Request \<Rightarrow> string" where
  "url r =
     (if raw_len (RawUrl (base r)) = 0 \<or> raw_ptr (RawUrl (base r)) = None then ''''
      else from_utf8_lossy (raw_slice (RawUrl (base r))))"

definition has_more_body :: "Request \<Rightarrow> bool" where
  "has_more_body r \<longleftrightarrow> Flags (base r) AND HTTP_REQUEST_FLAG_MORE_ENTITY_BODY_EXISTS \<noteq> 0"

definition inline_body :: "Request \<Rightarrow> u8 list" where
  "inline_body r =
     (if EntityChunkCount (base r) = 0 then []
      else case pEntityChunks (base r) of
        None \<Rightarrow> []
      | Some c \<Rightarrow>
          (case pBuffer c of
             None \<Rightarrow> []
           | Some mem \<Rightarrow> if BufferLength c = 0 then [] else take (unat (BufferLength c)) mem))"

definition known_header :: "Request \<Rightarrow> HTTP_HEADER_ID \<Rightarrow> string option" where
  "known_header r i =
     (let header = KnownHeaders (base r) i in
      if raw_len header = 0 \<or> raw_ptr header = None then None else from_utf8 (raw_slice header))"

definition host :: "Request \<Rightarrow> string option" where
  "host r = known_header r HttpHeaderHost"

definition user_agent :: "Request \<Rightarrow> string option" where
  "user_agent r = known_header r HttpHeaderUserAgent"

definition content_type :: "Request \<Rightarrow> string option" where
  "content_type r = known_header r HttpHeaderContentType"

definition content_length :: "Request \<Rightarrow> nat option" where
  "content_length r = Option.bind (known_header r HttpHeaderContentLength) (parse_uint U64_MAX)"

definition connection :: "Request \<Rightarrow> string option" where
  "connection r = known_header r HttpHeaderConnection"

section \<open>Reading the body\<close>

text \<open>
  The loop of \<open>read_remaining_body_into\<close>, over the function that reads the next bytes: \<open>None\<close> is a loop that
  never returns.
\<close>

partial_function (option) fill_body ::
  "(nat \<Rightarrow> 's \<Rightarrow> nat option result \<times> u8 list \<times> 's) \<Rightarrow> vec_u8 \<Rightarrow> 's \<Rightarrow> (unit result \<times> vec_u8 \<times> 's) option"
where [code]:
  "fill_body rd v s =
     (let v1 = (if vlen v = vcap v then vec_reserve BODY_CHUNK_BYTES v else v);
          spare = vcap v1 - vlen v1
      in case rd spare s of (r, got, s') \<Rightarrow>
        (case r of
           Inl e \<Rightarrow> Some (Inl e, v1, s')
         | Inr n \<Rightarrow>
             if n = None \<or> n = Some 0 then Some (Inr (), v1, s')
             else fill_body rd (v1\<lparr>vbytes := vbytes v1 @ take (the n) got\<rparr>) s'))"

definition read_remaining_body_into ::
  "'w ov_env \<Rightarrow> 'k http_api \<Rightarrow> RequestQueue \<Rightarrow> Request \<Rightarrow> vec_u8 \<Rightarrow> 'k \<Rightarrow> (unit result \<times> vec_u8 \<times> 'k) option" where
  "read_remaining_body_into W A q r body k = fill_body (read_entity_body W A q (request_id r)) body k"

definition read_body_chunk ::
  "'w ov_env \<Rightarrow> 'k http_api \<Rightarrow> RequestQueue \<Rightarrow> Request \<Rightarrow> nat \<Rightarrow> 'k \<Rightarrow> nat option result \<times> u8 list \<times> 'k" where
  "read_body_chunk W A q r dst_len k = read_entity_body W A q (request_id r) dst_len k"

record Body =
  body_inline :: "u8 list"
  body_owned :: "PooledVec option"

definition is_inline :: "Body \<Rightarrow> bool" where
  "is_inline b \<longleftrightarrow> body_owned b = None"

definition body_deref :: "Body \<Rightarrow> u8 list option" where
  "body_deref b =
     (case body_owned b of None \<Rightarrow> Some (body_inline b) | Some p \<Rightarrow> map_option vbytes (pooled_vec_deref p))"

text \<open>How much \<open>body\<close> asks of the pool.\<close>

definition body_capacity :: "Request \<Rightarrow> nat" where
  "body_capacity r =
     (let declared = min (case content_length r of Some n \<Rightarrow> n | None \<Rightarrow> 0) MAX_BODY_RESERVE in
      if length (inline_body r) < declared then declared else length (inline_body r) + BODY_CHUNK_BYTES)"

definition body ::
  "'w ov_env \<Rightarrow> 'k http_api \<Rightarrow> RequestQueue \<Rightarrow> Request \<Rightarrow> 'q BodyPool \<Rightarrow> 'k \<Rightarrow> (Body result \<times> 'q BodyPool \<times> 'k) option" where
  "body W A q r bodies k =
     (let inline = inline_body r in
      if \<not> has_more_body r then Some (Inr \<lparr>body_inline = inline, body_owned = None\<rparr>, bodies, k)
      else case body_pool_take (body_capacity r) bodies of
        (p, bodies') \<Rightarrow>
          (case pooled_vec_deref p of
             None \<Rightarrow> None
           | Some vec \<Rightarrow>
               (case read_remaining_body_into W A q r (vec_extend inline vec) k of
                  None \<Rightarrow> None
                | Some (Inl e, vec', k') \<Rightarrow> Some (Inl e, pooled_vec_drop \<lparr>pv_vec = Some vec'\<rparr> bodies', k')
                | Some (Inr u, vec', k') \<Rightarrow>
                    Some (Inr \<lparr>body_inline = inline, body_owned = Some \<lparr>pv_vec = Some vec'\<rparr>\<rparr>, bodies', k'))))"

section \<open>A source of body bytes\<close>

text \<open>The vector a round of the loop reads into: the same bytes, room for at least one more, capacity within bounds.\<close>

abbreviation room_for_more :: "vec_u8 \<Rightarrow> vec_u8" where
  "room_for_more v \<equiv> if vlen v = vcap v then vec_reserve BODY_CHUNK_BYTES v else v"

lemma room_for_more:
  assumes "vec_wf v"
  shows "vec_wf (room_for_more v)" and "vbytes (room_for_more v) = vbytes v" and "vlen (room_for_more v) = vlen v"
    and "vcap v \<le> vcap (room_for_more v)" and "0 < vcap (room_for_more v) - vlen (room_for_more v)"
  using assms vec_wf_reserve vcap_reserve_mono by (auto simp: vec_defs BODY_CHUNK_BYTES_def)

lemma room_for_more_bound:
  "vcap v \<le> B \<Longrightarrow> 2 * vlen v + BODY_CHUNK_BYTES \<le> B \<Longrightarrow> vcap (room_for_more v) \<le> B"
  by (auto simp: vec_reserve_def BODY_CHUNK_BYTES_def)

lemma fill_body_round:
  assumes "rd (vcap (room_for_more v) - vlen (room_for_more v)) s = (r, got, s')"
  shows "fill_body rd v s =
    (case r of
       Inl e \<Rightarrow> Some (Inl e, room_for_more v, s')
     | Inr n \<Rightarrow>
         if n = None \<or> n = Some 0 then Some (Inr (), room_for_more v, s')
         else fill_body rd ((room_for_more v)\<lparr>vbytes := vbytes (room_for_more v) @ take (the n) got\<rparr>) s')"
  by (subst fill_body.simps) (simp only: Let_def assms prod.case)

text \<open>
  What the reading loop relies on: a read of a non-empty buffer that succeeds delivers the next bytes
  of what is left, no more than fit, and none only at the end; the end of the body is only reported
  at the end.
\<close>

locale entity_source =
  fixes rd :: "nat \<Rightarrow> 's \<Rightarrow> nat option result \<times> u8 list \<times> 's"
    and rest :: "'s \<Rightarrow> u8 list"
    and ok :: "'s \<Rightarrow> bool"
  assumes read_some: "ok s \<Longrightarrow> 0 < n \<Longrightarrow> n < 2 ^ 32 \<Longrightarrow> rd n s = (Inr (Some m), got, s') \<Longrightarrow>
      m \<le> n \<and> m \<le> length (rest s) \<and> take m got = take m (rest s) \<and> rest s' = drop m (rest s) \<and> ok s' \<and>
      (m = 0 \<longrightarrow> rest s = [])"
    and read_none: "ok s \<Longrightarrow> 0 < n \<Longrightarrow> n < 2 ^ 32 \<Longrightarrow> rd n s = (Inr None, got, s') \<Longrightarrow> rest s = []"
begin

lemma fill_body_progress:
  fixes v m got
  defines "w \<equiv> (room_for_more v)\<lparr>vbytes := vbytes (room_for_more v) @ take m got\<rparr>"
  assumes "ok s" and "vec_wf v" and "vcap (room_for_more v) - vlen (room_for_more v) < 2 ^ 32"
    and "rd (vcap (room_for_more v) - vlen (room_for_more v)) s = (Inr (Some m), got, s')"
  shows "vec_wf w" and "vlen w = vlen v + m" and "vcap w = vcap (room_for_more v)"
    and "vbytes w = vbytes v @ take m (rest s)" and "rest s' = drop m (rest s)" and "m \<le> length (rest s)" and "ok s'"
proof -
  note v = room_for_more [OF assms(3)] and f = read_some [OF assms(2) room_for_more(5) [OF assms(3)] assms(4,5)]
  show cap: "vcap w = vcap (room_for_more v)" and "rest s' = drop m (rest s)" and "m \<le> length (rest s)" and "ok s'"
    using f by (simp_all add: w_def)
  show bytes: "vbytes w = vbytes v @ take m (rest s)" using f v(2) by (simp add: w_def)
  then show len: "vlen w = vlen v + m" using f by (simp add: vlen_def)
  have "vlen v + m \<le> vcap (room_for_more v)" using f v(1,3) unfolding vec_wf_def by linarith
  then show "vec_wf w" unfolding vec_wf_def len cap .
qed

lemma fill_body_complete:
  assumes "ok s" and "vec_wf v" and "vcap v \<le> B" and "2 * (vlen v + length (rest s)) + BODY_CHUNK_BYTES \<le> B"
    and "B < 2 ^ 32"
  shows "\<exists>r v' s'. fill_body rd v s = Some (r, v', s') \<and> vec_wf v' \<and> vcap v \<le> vcap v' \<and>
    (\<exists>m. vbytes v' = vbytes v @ take m (rest s)) \<and> (r = Inr () \<longrightarrow> vbytes v' = vbytes v @ rest s)"
  using assms
proof (induction "length (rest s)" arbitrary: s v rule: less_induct)
  case less
  let ?v = "room_for_more v"
  note wf = room_for_more(1) [OF less.prems(2)] and bytes = room_for_more(2) [OF less.prems(2)]
    and mono = room_for_more(4) [OF less.prems(2)] and spare = room_for_more(5) [OF less.prems(2)]
  have cap: "vcap ?v \<le> B" using less.prems(3,4) by (intro room_for_more_bound) simp_all
  have small: "vcap ?v - vlen ?v < 2 ^ 32" using cap less.prems(5) by linarith
  obtain r got s' where rd: "rd (vcap ?v - vlen ?v) s = (r, got, s')" by (rule prod_cases3)
  note unf = fill_body_round [of rd, OF rd]
  show ?case
  proof (cases r)
    case (Inl e)
    have "fill_body rd v s = Some (Inl e, ?v, s')" using unf Inl by simp
    moreover have "vbytes ?v = vbytes v @ take 0 (rest s)" using bytes by simp
    ultimately show ?thesis using wf mono by blast
  next
    case (Inr n)
    show ?thesis
    proof (cases "n = None \<or> n = Some 0")
      case True
      then have "rest s = []" using read_none [OF less.prems(1) spare small] read_some [OF less.prems(1) spare small] rd Inr
        by auto
      moreover have "fill_body rd v s = Some (Inr (), ?v, s')" using unf Inr True by simp
      ultimately show ?thesis using wf mono bytes by auto
    next
      case False
      then obtain m where m: "n = Some m" "0 < m" by auto
      let ?w = "?v\<lparr>vbytes := vbytes ?v @ take m got\<rparr>"
      note f = fill_body_progress [OF less.prems(1,2) small rd [unfolded Inr m(1)]]
      have lt: "length (rest s') < length (rest s)" using f(5,6) m(2) by simp
      have c: "vcap ?w \<le> B" "2 * (vlen ?w + length (rest s')) + BODY_CHUNK_BYTES \<le> B"
        using less.prems(4) cap f(2,3,5,6) by simp_all
      from less.hyps [OF lt f(7,1) c less.prems(5)] obtain r' v' s'' j where
        run: "fill_body rd ?w s' = Some (r', v', s'')" and w': "vec_wf v'" "vcap ?w \<le> vcap v'"
        and part: "vbytes v' = vbytes ?w @ take j (rest s')" and all: "r' = Inr () \<longrightarrow> vbytes v' = vbytes ?w @ rest s'"
        by blast
      have "fill_body rd v s = Some (r', v', s'')" using unf Inr m run by simp
      moreover have "vbytes v' = vbytes v @ take (m + j) (rest s)" using part f(4,5) by (simp add: take_add)
      moreover have "r' = Inr () \<longrightarrow> vbytes v' = vbytes v @ rest s" using all f(4,5) by simp
      moreover have "vcap v \<le> vcap v'" using w'(2) f(3) mono by simp
      ultimately show ?thesis using w'(1) by blast
    qed
  qed
qed

end

text \<open>What http.sys documents of \<open>HttpReceiveRequestEntityBody\<close> for one request; \<open>rest\<close> is the part of
  its body not delivered yet.\<close>

definition body_api_ok :: "'w ov_env \<Rightarrow> RequestQueue \<Rightarrow> u64 \<Rightarrow> 'k http_api \<Rightarrow> ('k \<Rightarrow> u8 list) \<Rightarrow> bool" where
  "body_api_ok W q i A rest \<longleftrightarrow>
     (\<forall>n k sb got k'. n \<noteq> 0 \<longrightarrow> HttpReceiveRequestEntityBody A i n k = (sb, got, k') \<longrightarrow>
        (case op_finish W (skip_on_success q) sb of
           Inr m \<Rightarrow> m \<le> n \<and> unat m \<le> length (rest k) \<and> take (unat m) got = take (unat m) (rest k) \<and>
             rest k' = drop (unat m) (rest k) \<and> (m = 0 \<longrightarrow> rest k = [])
         | Inl e \<Rightarrow> e = Win32 ERROR_HANDLE_EOF \<longrightarrow> rest k = []))"

lemma as_u32_nonzero: "0 < n \<Longrightarrow> n < 2 ^ 32 \<Longrightarrow> as_u32 n \<noteq> 0"
  by (simp add: as_u32_0_iff)

lemma read_entity_bodyE:
  assumes "body_api_ok W q i A rest" and "0 < n" and "n < 2 ^ 32" and "read_entity_body W A q i n k = (r, got, k')"
  shows "case r of
      Inr (Some m) \<Rightarrow> m \<le> n \<and> m \<le> length (rest k) \<and> take m got = take m (rest k) \<and> rest k' = drop m (rest k) \<and>
        (m = 0 \<longrightarrow> rest k = [])
    | Inr None \<Rightarrow> rest k = []
    | Inl e \<Rightarrow> True"
proof -
  obtain sb g k1 where call: "HttpReceiveRequestEntityBody A i (as_u32 n) k = (sb, g, k1)" by (rule prod_cases3)
  have law: "case op_finish W (skip_on_success q) sb of
           Inr m \<Rightarrow> m \<le> as_u32 n \<and> unat m \<le> length (rest k) \<and> take (unat m) g = take (unat m) (rest k) \<and>
             rest k1 = drop (unat m) (rest k) \<and> (m = 0 \<longrightarrow> rest k = [])
         | Inl e \<Rightarrow> e = Win32 ERROR_HANDLE_EOF \<longrightarrow> rest k = []"
    using assms(1) as_u32_nonzero [OF assms(2,3)] call unfolding body_api_ok_def by blast
  show ?thesis
  proof (cases "op_finish W (skip_on_success q) sb")
    case (Inl e)
    then show ?thesis using assms(2,4) call law by (auto simp: read_entity_body_def split: if_splits)
  next
    case (Inr m)
    then have "r = Inr (Some (unat m))" "got = g" "k' = k1"
      using assms(2,4) call by (simp_all add: read_entity_body_def)
    moreover have "unat m \<le> n" using law Inr assms(3) by (simp add: word_le_nat_alt unat_as_u32_id)
    ultimately show ?thesis using law Inr by (simp add: unat_eq_zero)
  qed
qed

interpretation entity: entity_source "read_entity_body W A q i" rest "\<lambda>k. body_api_ok W q i A rest"
  for W :: "'w ov_env" and A :: "'k http_api" and q :: RequestQueue and i :: u64 and rest :: "'k \<Rightarrow> u8 list"
proof unfold_locales
  fix s n m got s'
  assume "body_api_ok W q i A rest" "0 < n" "n < 2 ^ 32" "read_entity_body W A q i n s = (Inr (Some m), got, s')"
  from read_entity_bodyE [OF this] this(1)
  show "m \<le> n \<and> m \<le> length (rest s) \<and> take m got = take m (rest s) \<and> rest s' = drop m (rest s) \<and>
      body_api_ok W q i A rest \<and> (m = 0 \<longrightarrow> rest s = [])" by simp
next
  fix s n got s'
  assume "body_api_ok W q i A rest" "0 < n" "n < 2 ^ 32" "read_entity_body W A q i n s = (Inr None, got, s')"
  from read_entity_bodyE [OF this] show "rest s = []" by simp
qed

section \<open>Lemmas\<close>

text \<open>The vector the pool hands out is empty and its capacity bounded.\<close>

lemma body_pool_take_vec:
  assumes "body_pool_inv mr p" and "body_pool_take want p = (x, p')"
  shows "\<exists>v. pooled_vec_deref x = Some v \<and> vbytes v = [] \<and> vcap v \<le> max mr want"
proof -
  obtain r free where pop: "aq_pop (dp_free p) = (r, free)" by fastforce
  have ok: "aq_ok (dp_free p)" using assms(1) by (simp add: body_pool_inv_def)
  note items = aq_pop_items [OF ok pop]
  show ?thesis
  proof (cases r)
    case None
    then show ?thesis using assms(2) pop
      by (auto simp: body_pool_take_def pooled_vec_deref_def vec_defs Let_def)
  next
    case (Some v)
    then have "vbytes v = [] \<and> vcap v \<le> mr" using items(3) [OF Some] assms(1) by (simp add: body_pool_inv_def)
    then show ?thesis using assms(2) pop Some
      by (auto simp: body_pool_take_def pooled_vec_deref_def vec_defs Let_def)
  qed
qed

lemma body_capacity_bound: "body_capacity r \<le> max MAX_BODY_RESERVE (length (inline_body r) + BODY_CHUNK_BYTES)"
  by (auto simp: body_capacity_def Let_def)

lemma vcap_extend_empty: "vbytes v = [] \<Longrightarrow> vcap (vec_extend bs v) \<le> max 8 (max (2 * vcap v) (length bs))"
  by (auto simp: vec_defs)

definition method_name :: "Method \<Rightarrow> string" where
  "method_name m =
     (case m of
        Method_Get \<Rightarrow> ''GET'' | Method_Post \<Rightarrow> ''POST'' | Method_Put \<Rightarrow> ''PUT'' | Method_Delete \<Rightarrow> ''DELETE''
      | Method_Head \<Rightarrow> ''HEAD'' | Method_Options \<Rightarrow> ''OPTIONS'' | Method_Patch \<Rightarrow> ''PATCH''
      | Method_Trace \<Rightarrow> ''TRACE'' | Method_Connect \<Rightarrow> ''CONNECT'' | Method_Other s \<Rightarrow> s)"

text \<open>A kernel whose state is the rest of the body, and which fills every buffer as far as it can.\<close>

definition streaming_api :: "u8 list http_api" where
  "streaming_api =
     \<lparr>HttpReceiveHttpRequest = (\<lambda>i flag cap k. (no_submission, zeroed_request, k)),
      HttpReceiveRequestEntityBody = (\<lambda>i n k.
        if k = [] then (no_submission\<lparr>sub_ec := ERROR_HANDLE_EOF\<rparr>, [], k)
        else (no_submission\<lparr>sub_bytes := as_u32 (min (unat n) (length k))\<rparr>, take (unat n) k, drop (unat n) k)),
      HttpSendHttpResponse = (\<lambda>i r c k. (no_submission, k))\<rparr>"

lemma streaming_api_ok: "skip_on_success q \<Longrightarrow> body_api_ok W q i streaming_api id"
proof -
  assume skip: "skip_on_success q"
  have le: "min (unat n) (length k) < 2 ^ 32" for n :: u32 and k :: "u8 list"
  proof -
    have "unat n < 2 ^ LENGTH(32)" by (rule unsigned_less)
    then show ?thesis by simp
  qed
  have m: "unat (as_u32 (min (unat n) (length k))) = min (unat n) (length k)" for n :: u32 and k :: "u8 list"
    using le by (rule unat_as_u32_id)
  have "as_u32 (min (unat n) (length k)) \<le> n" for n :: u32 and k :: "u8 list"
    by (simp add: word_le_nat_alt m)
  moreover have "as_u32 (min (unat n) (length k)) \<noteq> 0" if "n \<noteq> 0" "k \<noteq> []" for n :: u32 and k :: "u8 list"
  proof -
    have "0 < unat n" using that(1) by (simp add: unat_gt_0)
    then have "0 < min (unat n) (length k)" using that(2) by simp
    then show ?thesis using le by (rule as_u32_nonzero)
  qed
  moreover have "drop (min n (length k)) k = drop n k" "take (min n (length k)) k = take n k"
    for n and k :: "u8 list" by (simp_all add: min_def)
  ultimately show ?thesis
    by (auto simp: body_api_ok_def streaming_api_def op_finish_def no_submission_def skip m
        ERROR_HANDLE_EOF_def ERROR_IO_PENDING_def split: if_splits)
qed

definition streamed_request :: Request where
  "streamed_request = \<lparr>req_buffer = (request_buffer_new 864 16384)\<lparr>contents :=
     zeroed_request\<lparr>RequestId := 7, Flags := 1, EntityChunkCount := 1,
       pEntityChunks := Some \<lparr>pBuffer = Some [10, 20], BufferLength = 2\<rparr>\<rparr>\<rparr>\<rparr>"

text \<open>Reading the body, on every branch; the client of the interpretation above.\<close>

lemma body_reads_all:
  assumes "body_api_ok W q (request_id r) A rest" and "body_pool_inv mr bodies" and "mr \<le> 2 ^ 30"
    and "length (inline_body r) + length (rest k) \<le> 2 ^ 30"
  shows "\<exists>res bodies' k'. body W A q r bodies k = Some (res, bodies', k') \<and> body_pool_inv mr bodies' \<and>
    (\<forall>b. res = Inr b \<longrightarrow> body_deref b = Some (inline_body r @ (if has_more_body r then rest k else [])))"
proof (cases "has_more_body r")
  case False
  then show ?thesis using assms(2) by (simp add: body_def body_deref_def Let_def)
next
  case True
  obtain p bodies' where tk: "body_pool_take (body_capacity r) bodies = (p, bodies')" by fastforce
  have inv': "body_pool_inv mr bodies'" using body_pool_take_keeps(1) [OF assms(2) tk] by simp
  obtain v where v: "pooled_vec_deref p = Some v" "vbytes v = []" "vcap v \<le> max mr (body_capacity r)"
    using body_pool_take_vec [OF assms(2) tk] by blast
  let ?v = "vec_extend (inline_body r) v" and ?B = "2 ^ 32 - 1 :: nat"
  have "vec_wf v" using v(2) by (simp add: vec_wf_def vlen_def)
  then have wf: "vec_wf ?v" by (rule vec_wf_extend)
  have cap: "vcap ?v \<le> ?B"
    using vcap_extend_empty [OF v(2), of "inline_body r"] v(3) body_capacity_bound [of r] assms(3,4)
    by (simp add: MAX_BODY_RESERVE_def BODY_CHUNK_BYTES_def)
  have total: "2 * (vlen ?v + length (rest k)) + BODY_CHUNK_BYTES \<le> ?B"
    using assms(4) v(2) by (simp add: vlen_def BODY_CHUNK_BYTES_def)
  obtain u v' k' where run: "read_remaining_body_into W A q r ?v k = Some (u, v', k')"
    and all: "u = Inr () \<longrightarrow> vbytes v' = inline_body r @ rest k"
    using entity.fill_body_complete [OF assms(1) wf cap total] v(2) unfolding read_remaining_body_into_def by auto
  show ?thesis
  proof (cases u)
    case (Inl e)
    have "body W A q r bodies k = Some (Inl e, pooled_vec_drop \<lparr>pv_vec = Some v'\<rparr> bodies', k')"
      using True tk v(1) run Inl by (simp add: body_def Let_def)
    then show ?thesis using body_pool_put_keeps [OF inv'] by blast
  next
    case (Inr x)
    then show ?thesis using True tk v(1) run all inv'
      by (simp add: body_def Let_def body_deref_def pooled_vec_deref_def)
  qed
qed

section \<open>Properties\<close>

text \<open>
  C5: \<open>body\<close> returns the whole body.  With a pool of body buffers in order and a kernel that delivers
  what is left of the body in sequence, reading the body always comes to an end; when it succeeds, the
  result dereferences to the bytes that came with the headers followed by all the rest, in order, whatever
  the declared length was and however the kernel splits its answers; the pool stays in order, on errors too.
\<close>

theorem request_body_complete:
  assumes "body_api_ok W q (request_id r) A rest" and "body_pool_inv mr bodies" and "mr \<le> 2 ^ 30"
    and "length (inline_body r) + length (rest k) \<le> 2 ^ 30"
  shows "\<exists>res bodies' k'. body W A q r bodies k = Some (res, bodies', k') \<and> body_pool_inv mr bodies' \<and>
    (\<forall>b. res = Inr b \<longrightarrow> body_deref b = Some (inline_body r @ (if has_more_body r then rest k else [])))"
  using assms by (rule body_reads_all)

theorem request_body_complete_witness:
  "\<exists>res bodies' k'. body flag_env streaming_api test_queue streamed_request (body_pool_new list_queue_new 4 1048576)
       [30, 40, 50] = Some (res, bodies', k') \<and>
     (\<forall>b. res = Inr b \<longrightarrow> body_deref b = Some [10, 20, 30, 40, 50])"
proof -
  have ok: "body_api_ok flag_env test_queue (request_id streamed_request) streaming_api id"
    by (rule streaming_api_ok) (simp add: test_queue_def)
  have "aq_new_ok (list_queue_new :: nat \<Rightarrow> (vec_u8, vec_u8 list \<times> nat) array_queue)" by (rule list_queue_new_ok)
  then have inv: "body_pool_inv 1048576 (body_pool_new (list_queue_new :: nat \<Rightarrow> (vec_u8, vec_u8 list \<times> nat) array_queue) 4 1048576)"
    by (simp add: aq_new_ok_def body_pool_inv_def body_pool_new_def)
  have i: "inline_body streamed_request = [10, 20]" "has_more_body streamed_request"
    by (simp_all add: inline_body_def has_more_body_def base_def streamed_request_def
        HTTP_REQUEST_FLAG_MORE_ENTITY_BODY_EXISTS_def)
  from request_body_complete [OF ok inv, of "[30, 40, 50]"] i show ?thesis by auto
qed

text \<open>
  Parsing a method loses nothing.  Every method text maps to the constructor it names, and to
  \<open>Other\<close> with the text itself for the rest: printing the parsed method gives the text back, so two
  texts are the same method only when they are equal; an extension method that http.sys reports by name
  is classified the same way.
\<close>

lemma method_round_trip:
  "method_name (method_from_str s) = s \<and>
   (0 < raw_len (UnknownVerb (base r)) \<longrightarrow> from_utf8 (raw_slice (UnknownVerb (base r))) = Some s \<longrightarrow>
     method_name (request_method verb_debug r) = s)"
proof -
  have rt: "method_name (method_from_str t) = t" for t
    by (simp add: method_from_str_def method_name_def)
  moreover have "request_method verb_debug r = method_from_str s"
    if "0 < raw_len (UnknownVerb (base r))" "from_utf8 (raw_slice (UnknownVerb (base r))) = Some s"
    using from_utf8_lossy_valid [OF that(2)] that(1) by (simp add: request_method_def)
  ultimately show ?thesis by simp
qed

text \<open>
  The two readings of \<open>Content-Length\<close> agree.  \<open>Request::content_length\<close>, which sizes the body
  buffer, and \<open>declared_body_len\<close>, which sizes the receive buffer, give the same number whenever the first
  gives one, and it fits 64 bits; where the first gives none, the second gives none or the value that never fits.
\<close>

lemma content_length_agrees:
  "case content_length r of
     Some n \<Rightarrow> declared_body_len (req_buffer r) = Some n \<and> n \<le> U64_MAX
   | None \<Rightarrow> declared_body_len (req_buffer r) \<in> {None, Some U64_MAX}"
  by (auto simp: content_length_def known_header_def declared_body_len_def base_def Let_def bind_eq_Some_conv
      dest: parse_uint_bound split: option.splits if_splits)

text \<open>
  A body of exactly the declared length costs a reallocation and a further call.  When the buffer has
  room for exactly what is left and the kernel fills it in one call, the loop finds the buffer full,
  doubles its capacity (by at least one chunk), and reads once more only to learn that the body has ended.
\<close>

lemma exact_body_regrows:
  assumes "body_api_ok W q i A rest" and "vlen v + length (rest k) = vcap v" and "rest k \<noteq> []"
    and "2 * vcap v + BODY_CHUNK_BYTES < 2 ^ 32"
    and "read_entity_body W A q i (length (rest k)) k = (Inr (Some (length (rest k))), got, k1)"
  shows "\<exists>res v' k2. fill_body (read_entity_body W A q i) v k = Some (res, v', k2) \<and>
    vcap v' = max (2 * vcap v) (vcap v + BODY_CHUNK_BYTES) \<and> vbytes v' = vbytes v @ rest k"
proof -
  let ?n = "length (rest k)" and ?rd = "read_entity_body W A q i"
  let ?w = "v\<lparr>vbytes := vbytes v @ take ?n got\<rparr>" and ?cap = "max (2 * vcap v) (vcap v + BODY_CHUNK_BYTES)"
  have n: "0 < ?n" "?n < 2 ^ 32" using assms(2,3,4) by auto
  from read_entity_bodyE [OF assms(1) n assms(5)] have got: "take ?n got = rest k" and k1: "rest k1 = []" by simp_all
  have sp: "vcap v - vlen v = ?n" "vlen v \<noteq> vcap v" using assms(2) n(1) by auto
  have one: "fill_body ?rd v k = fill_body ?rd ?w k1"
    using assms(3,5) sp by (subst fill_body.simps) (simp add: Let_def)
  have full: "vlen ?w = vcap ?w" using got assms(2) by (simp add: vlen_def)
  let ?u = "vec_reserve BODY_CHUNK_BYTES ?w"
  have u: "vcap ?u = ?cap" "vbytes ?u = vbytes v @ rest k" "vlen ?u = vcap v"
    using full got assms(2) by (auto simp: vec_reserve_def BODY_CHUNK_BYTES_def vlen_def)
  have s: "0 < vcap ?u - vlen ?u" "vcap ?u - vlen ?u < 2 ^ 32" using u assms(4) by (auto simp: BODY_CHUNK_BYTES_def)
  obtain res g k2 where rd: "?rd (vcap ?u - vlen ?u) k1 = (res, g, k2)" by (rule prod_cases3)
  from read_entity_bodyE [OF assms(1) s rd] k1 have "isl res \<or> res = Inr None \<or> res = Inr (Some 0)"
    by (auto split: sum.splits option.splits)
  moreover have "fill_body ?rd ?w k1 = (case res of Inl e \<Rightarrow> Some (Inl e, ?u, k2) | Inr n \<Rightarrow>
      if n = None \<or> n = Some 0 then Some (Inr (), ?u, k2)
      else fill_body ?rd (?u\<lparr>vbytes := vbytes ?u @ take (the n) g\<rparr>) k2)"
    by (subst fill_body.simps) (simp only: full simp_thms if_True Let_def rd prod.case)
  ultimately obtain res' where "fill_body ?rd ?w k1 = Some (res', ?u, k2)" by (cases res) auto
  with one u show ?thesis by auto
qed

end
