(* ===== verification/Httpsys_Server.thy ===== *)
theory Httpsys_Server
  imports Httpsys_Request
begin

text \<open>
  \<open>crates/httpsys/src/server.rs\<close>: configuration, the builder with its routes, the teardown of the
  handles, one turn of a request slot, and the shutdown protocol between the owner of a \<open>Server\<close>, the
  server thread and its slots.
\<close>

section \<open>Configuration\<close>

record ServerConfig =
  concurrency :: nat
  io_threads :: nat
  request_buffer_bytes :: nat
  max_request_buffer_bytes :: nat
  queue_length :: u32
  max_pooled_body_bytes :: nat
  shutdown_timeout_secs :: nat

text \<open>The default, given what \<open>available_parallelism\<close> answers.\<close>

definition server_config_default :: "nat option \<Rightarrow> ServerConfig" where
  "server_config_default parallelism =
     (let cores = (case parallelism of Some n \<Rightarrow> n | None \<Rightarrow> 2) in
      \<lparr>concurrency = cores * 32, io_threads = max (cores div 2) 2, request_buffer_bytes = 16 * 1024,
       max_request_buffer_bytes = 128 * 1024, queue_length = 3000, max_pooled_body_bytes = 1024 * 1024,
       shutdown_timeout_secs = 30\<rparr>)"

section \<open>The builder\<close>

record 'h ServerBuilder =
  sb_init :: HttpInitializer
  sb_session :: ServerSession
  sb_group :: UrlGroup
  sb_queue :: RequestQueue
  sb_routes :: "u64 \<rightharpoonup> 'h"
  sb_next_id :: u64
  sb_config :: ServerConfig

text \<open>A local with a destructor, in a function left early through \<open>?\<close>.\<close>

definition on_error :: "unit ffi \<Rightarrow> 'a result ffi \<Rightarrow> 'a result ffi" where
  "on_error cleanup m =
     do { r \<leftarrow> m;
          case r of
            Inl e \<Rightarrow> do { u \<leftarrow> cleanup; State_Monad.return (Inl e) }
          | Inr x \<Rightarrow> State_Monad.return (Inr x) }"

definition with_config :: "kernel \<Rightarrow> ServerConfig \<Rightarrow> 'h ServerBuilder result ffi" where
  "with_config K config =
     try_bind (http_initializer_new K) (\<lambda>init.
       on_error (http_initializer_drop K init)
         (try_bind (server_session_new K) (\<lambda>session.
           on_error (server_session_drop K session)
             (try_bind (url_group_new K session) (\<lambda>group.
               on_error (url_group_drop K group)
                 (try_bind (request_queue_new K (io_threads config) (concurrency config)) (\<lambda>queue.
                   on_error (request_queue_drop K queue)
                     (try_bind (bind_url_group K queue group) (\<lambda>_.
                       try_bind (set_queue_length K queue (queue_length config)) (\<lambda>_.
                         State_Monad.return (Inr \<lparr>sb_init = init, sb_session = session, sb_group = group,
                           sb_queue = queue, sb_routes = Map.empty, sb_next_id = 1, sb_config = config\<rparr>)))))))))))"

definition server_builder_new :: "kernel \<Rightarrow> nat option \<Rightarrow> 'h ServerBuilder result ffi" where
  "server_builder_new K parallelism = with_config K (server_config_default parallelism)"

definition route :: "kernel \<Rightarrow> string \<Rightarrow> 'h \<Rightarrow> 'h ServerBuilder \<Rightarrow> (unit result \<times> 'h ServerBuilder) ffi" where
  "route K u handler b =
     (let i = sb_next_id b; b = b\<lparr>sb_next_id := sb_next_id b + 1\<rparr> in
      do { r \<leftarrow> add_url K (sb_group b) u i;
           case r of
             Inl e \<Rightarrow> State_Monad.return (Inl e, b)
           | Inr x \<Rightarrow> State_Monad.return (Inr (), b\<lparr>sb_routes := (sb_routes b)(i \<mapsto> handler)\<rparr>) })"

text \<open>A program that registers routes one after the other, going on after a refusal.\<close>

fun register :: "kernel \<Rightarrow> (string \<times> 'h) list \<Rightarrow> 'h ServerBuilder \<Rightarrow> (unit result list \<times> 'h ServerBuilder) ffi" where
  "register K [] b = State_Monad.return ([], b)"
| "register K ((u, h) # rs) b =
     do { x \<leftarrow> route K u h b;
          y \<leftarrow> register K rs (snd x);
          State_Monad.return (fst x # fst y, snd y) }"

section \<open>Teardown\<close>

record OwnedHandles =
  oh_queue :: RequestQueue
  oh_group :: UrlGroup
  oh_session :: ServerSession
  oh_init :: HttpInitializer

definition owned_handles :: "'h ServerBuilder \<Rightarrow> OwnedHandles" where
  "owned_handles b =
     \<lparr>oh_queue = sb_queue b, oh_group = sb_group b, oh_session = sb_session b, oh_init = sb_init b\<rparr>"

text \<open>
  The drop of \<open>OwnedHandles\<close>: fields in declaration order, the queue's and the group's being the last
  references by then; the session goes with its second and last reference.
\<close>

definition owned_handles_drop :: "kernel \<Rightarrow> OwnedHandles \<Rightarrow> unit ffi" where
  "owned_handles_drop K h =
     do { a \<leftarrow> request_queue_drop K (oh_queue h);
          b \<leftarrow> url_group_drop K (oh_group h);
          c \<leftarrow> server_session_drop K (oh_session h);
          http_initializer_drop K (oh_init h) }"

text \<open>
  The drop of a \<open>ServerBuilder\<close> that never ran: again fields in declaration order, so the initialiser first;
  the builder's reference to the session is not the last one, the group's is.
\<close>

definition server_builder_drop :: "kernel \<Rightarrow> 'h ServerBuilder \<Rightarrow> unit ffi" where
  "server_builder_drop K b =
     do { a \<leftarrow> http_initializer_drop K (sb_init b);
          c \<leftarrow> url_group_drop K (sb_group b);
          d \<leftarrow> server_session_drop K (group_session (sb_group b));
          request_queue_drop K (sb_queue b) }"

section \<open>A request slot\<close>

text \<open>
  A handler takes the request and answers with a response; it may use the kernel on the way.  \<open>None\<close> is a handler that never
  answers, because it panics or its future never completes.
\<close>

type_synonym 'k handler = "Request \<Rightarrow> 'k \<Rightarrow> (Response \<times> 'k) option"

definition ERROR_INVALID_HANDLE :: u32 where "ERROR_INVALID_HANDLE = 6"

definition ERROR_NO_MORE_FILES :: u32 where "ERROR_NO_MORE_FILES = 18"

definition ERROR_OPERATION_ABORTED :: u32 where "ERROR_OPERATION_ABORTED = 995"

definition is_terminal :: "Error \<Rightarrow> bool" where
  "is_terminal e =
     (case win32_code e of
        Some code \<Rightarrow> code = ERROR_OPERATION_ABORTED \<or> code = ERROR_INVALID_HANDLE \<or> code = ERROR_NO_MORE_FILES
      | None \<Rightarrow> False)"

text \<open>\<open>reply\<close>, with the answers it sends.\<close>

definition reply ::
  "'w ov_env \<Rightarrow> 'k http_api \<Rightarrow> RequestQueue \<Rightarrow> RequestBuffer \<Rightarrow> Response \<Rightarrow> 'k \<Rightarrow> (u64 \<times> Response) list \<times> 'k" where
  "reply W A q b response k =
     (let i = buffer_request_id b in
      if i \<noteq> 0 then ([(i, response)], snd (send_response W A q i response k)) else ([], k))"

record ('q, 'k) slot =
  sl_pool :: "'q BufferPool"
  sl_mode :: ReceiveMode
  sl_kernel :: 'k
  sl_sent :: "(u64 \<times> Response) list"

text \<open>How a turn ends: with the next one, with the end of the loop, or with the slot lost to a handler that never answers.\<close>

datatype 'a turn = Continue 'a | Return 'a | Lost 'a

text \<open>What a turn does with the result of \<open>receive\<close>: answer the request, refuse it, leave, or go on.\<close>

definition slot_finish ::
  "'w ov_env \<Rightarrow> 'k http_api \<Rightarrow> RequestQueue \<Rightarrow> (u64 \<rightharpoonup> 'k handler) \<Rightarrow> unit result \<Rightarrow> RequestBuffer \<Rightarrow> ('q, 'k) slot \<Rightarrow> ('q, 'k) slot turn" where
  "slot_finish W A q routes r b s =
     (case r of
        Inr u \<Rightarrow>
          (let i = buffer_request_id b; request = \<lparr>req_buffer = b\<rparr> in
           case (case routes (url_context request) of
                   Some h \<Rightarrow> h request (sl_kernel s)
                 | None \<Rightarrow> Some (response_new NOT_FOUND, sl_kernel s)) of
             None \<Rightarrow> Lost s
           | Some (response, k) \<Rightarrow>
               Continue (s\<lparr>sl_kernel := snd (send_response W A q i response k),
                           sl_sent := sl_sent s @ [(i, response)]\<rparr>))
      | Inl (HeadersTooLarge needed) \<Rightarrow>
          (case reply W A q b (response_new HEADERS_TOO_LARGE) (sl_kernel s) of (sent, k) \<Rightarrow>
             Continue (s\<lparr>sl_kernel := k, sl_sent := sl_sent s @ sent\<rparr>))
      | Inl e \<Rightarrow> if is_terminal e then Return s else Continue s)"

text \<open>One turn of the loop of \<open>slot_loop\<close>: \<open>None\<close> is the panic of a dereference.\<close>

definition slot_turn ::
  "'w ov_env \<Rightarrow> 'k http_api \<Rightarrow> RequestQueue \<Rightarrow> nat \<Rightarrow> (u64 \<rightharpoonup> 'k handler) \<Rightarrow> ('q, 'k) slot \<Rightarrow> ('q, 'k) slot turn option" where
  "slot_turn W A q sz routes s =
     (case buffer_pool_take sz (sl_pool s) of (p, pool) \<Rightarrow>
        (case pooled_deref p of
           None \<Rightarrow> None
         | Some b \<Rightarrow>
             (case receive W A q sz (bp_max_bytes pool) b (sl_mode s) (sl_kernel s) of (r, b, mode, k) \<Rightarrow>
                Some (slot_finish W A q routes r b
                  (s\<lparr>sl_pool := pooled_buffer_drop \<lparr>pb_buffer = Some b\<rparr> pool, sl_mode := mode, sl_kernel := k\<rparr>)))))"

text \<open>The loop, for as many turns as asked; \<open>stop\<close> reads the flag.\<close>

fun slot_loop ::
  "nat \<Rightarrow> ('k \<Rightarrow> bool) \<Rightarrow> 'w ov_env \<Rightarrow> 'k http_api \<Rightarrow> RequestQueue \<Rightarrow> nat \<Rightarrow> (u64 \<rightharpoonup> 'k handler) \<Rightarrow>
   ('q, 'k) slot \<Rightarrow> ('q, 'k) slot turn option" where
  "slot_loop 0 stop W A q sz routes s = Some (Continue s)"
| "slot_loop (Suc n) stop W A q sz routes s =
     (if stop (sl_kernel s) then Some (Return s)
      else case slot_turn W A q sz routes s of
        None \<Rightarrow> None
      | Some (Return s') \<Rightarrow> Some (Return s')
      | Some (Lost s') \<Rightarrow> Some (Lost s')
      | Some (Continue s') \<Rightarrow> slot_loop n stop W A q sz routes s')"

definition slot_start :: "'q BufferPool \<Rightarrow> 'k \<Rightarrow> ('q, 'k) slot" where
  "slot_start pool k = \<lparr>sl_pool = pool, sl_mode = receive_mode_default, sl_kernel = k, sl_sent = []\<rparr>"

text \<open>The pools \<open>serve\<close> creates: one for all bodies, and one receive buffer for each slot.\<close>

definition serve_bodies :: "(nat \<Rightarrow> (vec_u8, 'q) array_queue) \<Rightarrow> ServerConfig \<Rightarrow> 'q BodyPool" where
  "serve_bodies new_queue config = body_pool_new new_queue (min (concurrency config) 64) (max_pooled_body_bytes config)"

definition serve_buffers :: "(nat \<Rightarrow> (RequestBuffer, 'q) array_queue) \<Rightarrow> ServerConfig \<Rightarrow> 'q BufferPool list" where
  "serve_buffers new_queue config =
     replicate (concurrency config)
       (buffer_pool_new new_queue 1 (request_buffer_bytes config) (max_request_buffer_bytes config))"

section \<open>Acquiring handles one after the other\<close>

text \<open>
  \<open>acquires pre m H\<close>: on top of the resources \<open>pre\<close> already accounted for, \<open>m\<close> leaves what \<open>H\<close> says of its
  result open; when it fails it leaves at most a queue handle behind.
\<close>

definition at_most_queue :: "resource multiset \<Rightarrow> resource multiset \<Rightarrow> bool" where
  "at_most_queue m m' \<longleftrightarrow> m' = m \<or> (\<exists>h. m' = add_mset (RQueue h) m)"

definition acquires :: "resource multiset \<Rightarrow> 'a result ffi \<Rightarrow> ('a \<Rightarrow> resource multiset) \<Rightarrow> bool" where
  "acquires pre m H \<longleftrightarrow>
     (\<forall>l r l'. run_state m l = (r, l') \<longrightarrow>
        (case r of Inr x \<Rightarrow> live l' + pre = H x + live l | Inl e \<Rightarrow> at_most_queue (live l) (live l')))"

lemma acquiresD:
  "acquires pre m H \<Longrightarrow> run_state m l = (r, l') \<Longrightarrow>
     (case r of Inr x \<Rightarrow> live l' + pre = H x + live l | Inl e \<Rightarrow> at_most_queue (live l) (live l'))"
  by (simp add: acquires_def)

lemma run_on_error:
  "run_state (on_error c m) l =
     (case run_state m l of (Inl e, l') \<Rightarrow> (Inl e, snd (run_state c l')) | (Inr x, l') \<Rightarrow> (Inr x, l'))"
  by (simp add: on_error_def split: prod.splits sum.splits)

text \<open>A guard whose constructor may leave a queue handle behind when it fails.\<close>

locale leaky_raii =
  fixes new_op :: "'g result ffi"
    and drop_op :: "'g \<Rightarrow> unit ffi"
    and held :: "'g \<Rightarrow> resource multiset"
  assumes new_ok: "run_state new_op l = (Inr g, l') \<Longrightarrow> live l' = held g + live l"
    and new_err: "run_state new_op l = (Inl e, l') \<Longrightarrow> at_most_queue (live l) (live l')"
    and drop_releases: "live_after (drop_op g) l = live l - held g"
begin

lemma acquires_step:
  assumes "\<And>g. acquires (pre + held g) (act g) H"
  shows "acquires pre (try_bind new_op (\<lambda>g. on_error (drop_op g) (act g))) H"
  unfolding acquires_def
proof (intro allI impI)
  fix l r l'
  assume run: "run_state (try_bind new_op (\<lambda>g. on_error (drop_op g) (act g))) l = (r, l')"
  obtain n l1 where n: "run_state new_op l = (n, l1)" by fastforce
  show "case r of Inr x \<Rightarrow> live l' + pre = H x + live l | Inl e \<Rightarrow> at_most_queue (live l) (live l')"
  proof (cases n)
    case (Inl e)
    then show ?thesis using run n new_err [of l e l1] by (auto simp: run_try_bind)
  next
    case (Inr g)
    obtain x l2 where b: "run_state (act g) l1 = (x, l2)" by fastforce
    have l1: "live l1 = held g + live l" using new_ok n Inr by simp
    have bd: "case x of Inr y \<Rightarrow> live l2 + (pre + held g) = H y + live l1 | Inl e \<Rightarrow> at_most_queue (live l1) (live l2)"
      using assms [of g] b unfolding acquires_def by blast
    show ?thesis
    proof (cases x)
      case (Inl e)
      have "live l' = live l2 - held g" "r = Inl e"
        using run n \<open>n = Inr g\<close> b Inl drop_releases [of g l2] by (simp_all add: run_try_bind run_on_error live_after_def)
      then show ?thesis using bd Inl l1 by (auto simp: at_most_queue_def)
    next
      case (Inr y)
      then have "r = Inr y" "l' = l2" using run n \<open>n = Inr g\<close> b by (simp_all add: run_try_bind run_on_error)
      moreover have "live l2 + pre + held g = (H y + live l) + held g" using bd Inr l1 by (simp add: ac_simps)
      ultimately show ?thesis by simp
    qed
  qed
qed

end

sublocale raii \<subseteq> leaky: leaky_raii new_op drop_op held
proof unfold_locales
  fix l e l'
  assume "run_state new_op l = (Inl e, l')"
  then show "at_most_queue (live l) (live l')" using new_err by (simp add: at_most_queue_def)
qed (use new_ok drop_releases in auto)

interpretation queue: leaky_raii "request_queue_new K n c" "request_queue_drop K" queue_held
  for K :: kernel and n c :: nat
proof unfold_locales
  fix l g l'
  assume "run_state (request_queue_new K n c) l = (Inr g, l')"
  then show "live l' = queue_held g + live l" using request_queue_new_live by fastforce
next
  fix l e l'
  assume "run_state (request_queue_new K n c) l = (Inl e, l')"
  then show "at_most_queue (live l) (live l')" using request_queue_new_live by (fastforce simp: at_most_queue_def)
next
  fix g l
  show "live_after (request_queue_drop K g) l = live l - queue_held g"
    by (simp add: live_after_def request_queue_drop_live)
qed

definition builder_held :: "'h ServerBuilder \<Rightarrow> resource multiset" where
  "builder_held b =
     {#RInit, RSession (session_id (sb_session b)), RGroup (group_id (sb_group b))#} + queue_held (sb_queue b)"

lemma acquires_tail:
  assumes "pre = H x"
  shows "acquires pre (try_bind (bind_url_group K q g) (\<lambda>_. try_bind (set_queue_length K q n) (\<lambda>_. State_Monad.return (Inr x)))) H"
  using assms
  by (auto simp: acquires_def at_most_queue_def bind_url_group_def bind_to_queue_def set_property_def
      set_queue_length_def ffi_runs live_step_def split: if_splits)

lemma with_config_acquires: "acquires {#} (with_config K config) builder_held"
  unfolding with_config_def
  by (intro initializer.leaky.acquires_step session.leaky.acquires_step url_group.leaky.acquires_step
      queue.acquires_step acquires_tail) (simp add: builder_held_def)

section \<open>Routes\<close>

lemma run_route:
  "run_state (route K u h b) l =
     (let c = HttpAddUrlToUrlGroup (group_id (sb_group b)) (normalize_prefix u) (sb_next_id b);
          b' = b\<lparr>sb_next_id := sb_next_id b + 1\<rparr> in
      (if rc (K l c) = 0 then (Inr (), b'\<lparr>sb_routes := (sb_routes b)(sb_next_id b \<mapsto> h)\<rparr>)
       else (Inl (Win32 (rc (K l c))), b'), l @ [(c, K l c)]))"
  by (simp add: route_def add_url_def ffi_runs Let_def)

text \<open>The routes a registration adds, given which of its prefixes the kernel accepted.\<close>

fun accepted_routes :: "u64 \<Rightarrow> unit result list \<Rightarrow> (string \<times> 'h) list \<Rightarrow> (u64 \<times> 'h) list" where
  "accepted_routes i (r # rs) ((u, h) # us) =
     (if isl r then accepted_routes (i + 1) rs us else (i, h) # accepted_routes (i + 1) rs us)"
| "accepted_routes i _ _ = []"

fun add_routes :: "(u64 \<times> 'h) list \<Rightarrow> (u64 \<rightharpoonup> 'h) \<Rightarrow> (u64 \<rightharpoonup> 'h)" where
  "add_routes [] m = m"
| "add_routes ((i, h) # xs) m = add_routes xs (m(i \<mapsto> h))"

lemma register_routes:
  assumes "run_state (register K us b) l = ((rs, b'), l')"
  shows "length rs = length us \<and> sb_routes b' = add_routes (accepted_routes (sb_next_id b) rs us) (sb_routes b) \<and>
    sb_next_id b' = sb_next_id b + word_of_nat (length us) \<and>
    map fst (drop (length l) l') =
      map (\<lambda>j. HttpAddUrlToUrlGroup (group_id (sb_group b)) (normalize_prefix (fst (us ! j))) (sb_next_id b + word_of_nat j))
        [0..<length us] \<and>
    (\<forall>j < length us. isl (rs ! j) \<longleftrightarrow> rc (snd (drop (length l) l' ! j)) \<noteq> 0) \<and> take (length l) l' = l"
  using assms
proof (induction us arbitrary: b l rs b' l')
  case Nil
  then show ?case by simp
next
  case (Cons p us)
  obtain u h where p: "p = (u, h)" by (cases p)
  let ?c = "HttpAddUrlToUrlGroup (group_id (sb_group b)) (normalize_prefix u) (sb_next_id b)"
  let ?l = "l @ [(?c, K l ?c)]"
  obtain x b1 where r1: "run_state (route K u h b) l = ((x, b1), ?l)"
    by (cases "rc (K l ?c) = 0") (simp_all add: run_route Let_def)
  have b1: "sb_next_id b1 = sb_next_id b + 1" "sb_group b1 = sb_group b"
    "sb_routes b1 = (if isl x then sb_routes b else (sb_routes b)(sb_next_id b \<mapsto> h))"
    and x: "isl x \<longleftrightarrow> rc (K l ?c) \<noteq> 0"
    using r1 by (auto simp: run_route Let_def split: if_splits)
  obtain ys b2 l2 where r2: "run_state (register K us b1) ?l = ((ys, b2), l2)"
    by (cases "run_state (register K us b1) ?l") auto
  have eqs: "rs = x # ys" "b' = b2" "l' = l2" using Cons.prems r1 r2 p by simp_all
  note IH = Cons.IH [OF r2]
  have "take (length l + 1) l2 = ?l" using IH by simp
  then have l2: "l2 = l @ (?c, K l ?c) # drop (length l + 1) l2" by (metis append.assoc append_Cons append_Nil append_take_drop_id)
  let ?m = "drop (length l + 1) l2"
  have dr: "drop (length l) l2 = (?c, K l ?c) # ?m" by (subst l2) simp
  have cong: "[0..<length (p # us)] = 0 # map Suc [0..<length us]" by (simp add: upt_conv_Cons map_Suc_upt del: upt_Suc)
  have nth: "isl ((x # ys) ! j) \<longleftrightarrow> rc (snd (((?c, K l ?c) # ?m) ! j)) \<noteq> 0" if "j < length (p # us)" for j
    using that IH x by (cases j) auto
  have "map fst ?m = map (\<lambda>j. HttpAddUrlToUrlGroup (group_id (sb_group b)) (normalize_prefix (fst (us ! j)))
      (sb_next_id b + 1 + word_of_nat j)) [0..<length us]"
    using IH b1 by simp
  then have calls: "map fst (drop (length l) l2) = map (\<lambda>j. HttpAddUrlToUrlGroup (group_id (sb_group b))
      (normalize_prefix (fst ((p # us) ! j))) (sb_next_id b + word_of_nat j)) [0..<length (p # us)]"
    unfolding dr cong using p by (simp add: comp_def ac_simps)
  have "take (length l) l2 = l" by (subst l2) simp
  moreover have "sb_next_id b2 = sb_next_id b + word_of_nat (length (p # us))" using IH b1 by simp
  moreover have "sb_routes b2 = add_routes (accepted_routes (sb_next_id b1) ys us) (sb_routes b1)" using IH by blast
  then have "sb_routes b2 = add_routes (accepted_routes (sb_next_id b) (x # ys) (p # us)) (sb_routes b)"
    by (cases "isl x") (simp_all add: b1 p)
  ultimately show ?case using eqs calls nth IH dr by simp
qed

lemma word_shift_neq: "Suc j < 2 ^ 64 \<Longrightarrow> (n :: u64) + 1 + word_of_nat j \<noteq> n"
proof
  assume j: "Suc j < 2 ^ 64" and eq: "n + 1 + word_of_nat j = n"
  then have "(word_of_nat (Suc j) :: u64) = 0" by (simp add: add.assoc)
  then have "unat (word_of_nat (Suc j) :: u64) = 0" by simp
  moreover have "unat (word_of_nat (Suc j) :: u64) = Suc j" using j by (simp add: unat_of_nat del: of_nat_Suc)
  ultimately show False by simp
qed

lemma accepted_routes_keys:
  "i \<in> fst ` set (accepted_routes n rs us) \<Longrightarrow> \<exists>j < length us. i = n + word_of_nat j"
proof (induction n rs us rule: accepted_routes.induct)
  case (1 n r rs u h us)
  then consider "i = n" | "i \<in> fst ` set (accepted_routes (n + 1) rs us)" by (auto split: if_splits)
  then show ?case
  proof cases
    case 1
    then show ?thesis by (intro exI [of _ 0]) simp
  next
    case 2
    then obtain j where "j < length us" "i = n + 1 + word_of_nat j" using "1.IH" by (cases "isl r") auto
    then show ?thesis by (intro exI [of _ "Suc j"]) (simp add: ac_simps)
  qed
qed simp_all

lemma accepted_routes_fresh: "length us < 2 ^ 64 - 1 \<Longrightarrow> n \<notin> fst ` set (accepted_routes (n + 1) rs us)"
  using accepted_routes_keys [of n "n + 1" rs us] word_shift_neq [of _ n] by fastforce

lemma accepted_routes_distinct: "length us < 2 ^ 64 \<Longrightarrow> distinct (map fst (accepted_routes n rs us))"
proof (induction n rs us rule: accepted_routes.induct)
  case (1 n r rs u h us)
  then show ?case using accepted_routes_fresh [of us n rs] by auto
qed simp_all

lemma accepted_routes_lookup:
  assumes "length rs = length us" and "length us < 2 ^ 64" and "j < length us"
  shows "map_of (accepted_routes n rs us) (n + word_of_nat j) = (if isl (rs ! j) then None else Some (snd (us ! j)))"
  using assms
proof (induction n rs us arbitrary: j rule: accepted_routes.induct)
  case (1 n r rs u h us)
  have fresh: "n \<notin> fst ` set (accepted_routes (n + 1) rs us)" using 1(4) by (intro accepted_routes_fresh) simp
  show ?case
  proof (cases j)
    case 0
    then show ?thesis using fresh by (auto simp: map_of_eq_None_iff)
  next
    case (Suc m)
    have "map_of (accepted_routes (n + 1) rs us) (n + 1 + word_of_nat m) = (if isl (rs ! m) then None else Some (snd (us ! m)))"
      using 1 Suc by (cases "isl r") auto
    moreover have "n + 1 + word_of_nat m \<noteq> n" using word_shift_neq [of m n] 1(4,5) Suc by simp
    ultimately show ?thesis using Suc by (auto simp: ac_simps)
  qed
qed simp_all

lemma add_routes_lookup:
  "distinct (map fst xs) \<Longrightarrow> add_routes xs m i = (case map_of xs i of Some h \<Rightarrow> Some h | None \<Rightarrow> m i)"
proof (induction xs arbitrary: m)
  case (Cons x xs)
  obtain j h where x: "x = (j, h)" by (cases x)
  have IH: "add_routes xs (m(j \<mapsto> h)) i = (case map_of xs i of Some h \<Rightarrow> Some h | None \<Rightarrow> (m(j \<mapsto> h)) i)"
    using Cons by simp
  have "map_of xs j = None" using Cons(2) x by (simp add: map_of_eq_None_iff)
  then show ?case using IH by (cases "i = j") (auto simp: x split: option.splits)
qed simp

section \<open>Slots\<close>

text \<open>What one turn sends, given what \<open>receive\<close> returned and left in the buffer.\<close>

lemma slot_turn_ok:
  assumes "buffer_pool_take sz (sl_pool s) = (p, pool)" and "pooled_deref p = Some b"
    and "receive W A q sz (bp_max_bytes pool) b (sl_mode s) (sl_kernel s) = (Inr (), b', mode, k)"
  shows "case (case routes (url_context \<lparr>req_buffer = b'\<rparr>) of
        None \<Rightarrow> Some (response_new NOT_FOUND, k) | Some h \<Rightarrow> h \<lparr>req_buffer = b'\<rparr> k) of
      None \<Rightarrow> \<exists>t. slot_turn W A q sz routes s = Some (Lost t) \<and> sl_sent t = sl_sent s
    | Some (response, k') \<Rightarrow> \<exists>t. slot_turn W A q sz routes s = Some (Continue t) \<and>
        sl_sent t = sl_sent s @ [(request_id \<lparr>req_buffer = b'\<rparr>, response)] \<and>
        sl_kernel t = snd (send_response W A q (request_id \<lparr>req_buffer = b'\<rparr>) response k')"
  using assms
  by (auto simp: slot_turn_def slot_finish_def request_id_def buffer_request_id_def base_def Let_def split: option.splits)

section \<open>Shutting the server down\<close>

text \<open>
  The server thread in \<open>serve\<close>: spawning slots, subscribing to the channel, waiting for the message, then
  the stop flag, \<open>HttpShutdownRequestQueue\<close>, the drain (or the abort after the timeout), and its end.  The
  owner of the \<open>Server\<close> may call \<open>shutdown\<close> any number of times and \<open>join\<close> once; \<open>drop\<close> is the one after the other.  A message on the channel reaches only a
  receiver that exists when it is sent.  A slot ends when it sees the flag or when its receive fails,
  which it does once the queue is shut down; an aborted one ends at its next suspension point.  It may also die at
  any time, of a terminal error of its receive or of a handler that panics, which the task set only records.
\<close>

datatype serve_pc = Spawning nat | Subscribing | Receiving | SettingStop | ShuttingQueue | Draining | Aborting | Served

datatype owner = Owning | Joined | JoiningServer

record srv =
  pc :: serve_pc
  slots :: nat
  subscribed :: bool
  messages :: nat
  stop_flag :: bool
  queue_shut :: bool
  owner_pc :: owner

datatype srv_action =
    SpawnSlot | Subscribe | Recv | SetStop | ShutQueue | DrainDone | DrainTimeout | AbortDone
  | SlotEnds | SlotDies | Shutdown | StartJoin | JoinServer

text \<open>\<open>Server::shutdown\<close>, and \<open>Server::join\<close>, which takes the handle of the thread and waits for it, or returns at once
  when the handle is gone.\<close>

definition srv_shutdown :: "srv \<Rightarrow> srv" where
  "srv_shutdown s = s\<lparr>messages := (if subscribed s then Suc (messages s) else messages s)\<rparr>"

definition srv_join :: "srv \<Rightarrow> srv" where
  "srv_join s = (if owner_pc s = Owning then s\<lparr>owner_pc := JoiningServer\<rparr> else s)"

declare srv_shutdown_def [simp] srv_join_def [simp]

fun srv_act :: "srv_action \<Rightarrow> srv \<Rightarrow> srv option" where
  "srv_act SpawnSlot s =
     (case pc s of
        Spawning (Suc n) \<Rightarrow> Some (s\<lparr>pc := Spawning n, slots := Suc (slots s)\<rparr>)
      | Spawning 0 \<Rightarrow> Some (s\<lparr>pc := Subscribing\<rparr>)
      | _ \<Rightarrow> None)"
| "srv_act Subscribe s =
     (if pc s = Subscribing then Some (s\<lparr>pc := Receiving, subscribed := True\<rparr>) else None)"
| "srv_act Recv s =
     (if pc s = Receiving \<and> 0 < messages s then Some (s\<lparr>pc := SettingStop, messages := messages s - 1\<rparr>) else None)"
| "srv_act SetStop s = (if pc s = SettingStop then Some (s\<lparr>pc := ShuttingQueue, stop_flag := True\<rparr>) else None)"
| "srv_act ShutQueue s = (if pc s = ShuttingQueue then Some (s\<lparr>pc := Draining, queue_shut := True\<rparr>) else None)"
| "srv_act DrainDone s = (if pc s = Draining \<and> slots s = 0 then Some (s\<lparr>pc := Served\<rparr>) else None)"
| "srv_act DrainTimeout s = (if pc s = Draining \<and> 0 < slots s then Some (s\<lparr>pc := Aborting\<rparr>) else None)"
| "srv_act AbortDone s = (if pc s = Aborting \<and> slots s = 0 then Some (s\<lparr>pc := Served\<rparr>) else None)"
| "srv_act SlotEnds s =
     (if 0 < slots s \<and> (stop_flag s \<or> queue_shut s) then Some (s\<lparr>slots := slots s - 1\<rparr>) else None)"
| "srv_act SlotDies s = (if 0 < slots s then Some (s\<lparr>slots := slots s - 1\<rparr>) else None)"
| "srv_act Shutdown s = (if owner_pc s \<noteq> JoiningServer then Some (srv_shutdown s) else None)"
| "srv_act StartJoin s = (if owner_pc s \<noteq> JoiningServer then Some (srv_join s) else None)"
| "srv_act JoinServer s =
     (if owner_pc s = JoiningServer \<and> pc s = Served then Some (s\<lparr>owner_pc := Joined\<rparr>) else None)"

text \<open>\<open>Drop for Server\<close>.\<close>

definition srv_drop :: "srv_action list" where
  "srv_drop = [Shutdown, StartJoin]"

definition srv_init :: "ServerConfig \<Rightarrow> srv" where
  "srv_init config = \<lparr>pc = Spawning (concurrency config), slots = 0, subscribed = False, messages = 0,
     stop_flag = False, queue_shut = False, owner_pc = Owning\<rparr>"

text \<open>\<open>ServerBuilder::run\<close>: the handles move to the server thread, which starts to serve.\<close>

definition server_builder_run :: "'h ServerBuilder \<Rightarrow> srv \<times> OwnedHandles \<times> (u64 \<rightharpoonup> 'h)" where
  "server_builder_run b = (srv_init (sb_config b), owned_handles b, sb_routes b)"

inductive srv_reachable :: "ServerConfig \<Rightarrow> srv \<Rightarrow> bool" for config where
  init: "srv_reachable config (srv_init config)"
| step: "srv_reachable config s \<Longrightarrow> srv_act a s = Some t \<Longrightarrow> srv_reachable config t"

inductive_simps srv_reachable_simps: "srv_reachable config s"

fun before_recv :: "serve_pc \<Rightarrow> bool" where
  "before_recv (Spawning n) = True"
| "before_recv Subscribing = True"
| "before_recv _ = False"

text \<open>The message is there, or has been received, unless it was sent before the subscription.\<close>

definition srv_inv :: "srv \<Rightarrow> bool" where
  "srv_inv s \<longleftrightarrow>
     (subscribed s \<longleftrightarrow> \<not> before_recv (pc s)) \<and>
     (pc s \<in> {ShuttingQueue, Draining, Aborting, Served} \<longrightarrow> stop_flag s) \<and>
     (pc s \<in> {Draining, Aborting, Served} \<longrightarrow> queue_shut s) \<and>
     (pc s = Served \<longrightarrow> slots s = 0) \<and> (owner_pc s = Joined \<longrightarrow> pc s = Served) \<and>
     (before_recv (pc s) \<longrightarrow> messages s = 0)"

lemma srv_inv_step: "srv_inv s \<Longrightarrow> srv_act a s = Some t \<Longrightarrow> srv_inv t"
  by (cases a; cases "pc s") (auto simp: srv_inv_def split: if_splits nat.splits)

lemma srv_inv_reachable: "srv_reachable config s \<Longrightarrow> srv_inv s"
proof (induction rule: srv_reachable.induct)
  case init
  show ?case by (simp add: srv_inv_def srv_init_def)
next
  case (step s a t)
  then show ?case using srv_inv_step by blast
qed

fun pc_weight :: "serve_pc \<Rightarrow> nat" where
  "pc_weight (Spawning n) = 2 * n + 8"
| "pc_weight Subscribing = 7"
| "pc_weight Receiving = 6"
| "pc_weight SettingStop = 5"
| "pc_weight ShuttingQueue = 4"
| "pc_weight Draining = 3"
| "pc_weight Aborting = 2"
| "pc_weight Served = 1"

definition srv_weight :: "srv \<Rightarrow> nat" where
  "srv_weight s = pc_weight (pc s) + slots s + (case owner_pc s of Owning \<Rightarrow> 2 | JoiningServer \<Rightarrow> 1 | Joined \<Rightarrow> 0)"

lemma srv_step_lighter: "srv_act a s = Some t \<Longrightarrow> owner_pc s = JoiningServer \<Longrightarrow> srv_weight t < srv_weight s"
  by (cases a) (auto simp: srv_weight_def split: if_splits serve_pc.splits nat.splits owner.splits)

lemma srv_progress:
  assumes "srv_inv s" and "owner_pc s = JoiningServer" and "\<not> (pc s = Receiving \<and> messages s = 0)"
  shows "\<exists>a t. srv_act a s = Some t"
proof (cases "pc s")
  case (Spawning n)
  then have "srv_act SpawnSlot s \<noteq> None" by (cases n) auto
  then show ?thesis by blast
next
  case Subscribing
  then have "srv_act Subscribe s \<noteq> None" by simp
  then show ?thesis by blast
next
  case Receiving
  then have "srv_act Recv s \<noteq> None" using assms(3) by simp
  then show ?thesis by blast
next
  case SettingStop
  then have "srv_act SetStop s \<noteq> None" by simp
  then show ?thesis by blast
next
  case ShuttingQueue
  then have "srv_act ShutQueue s \<noteq> None" by simp
  then show ?thesis by blast
next
  case Draining
  then have "srv_act DrainDone s \<noteq> None \<or> srv_act SlotEnds s \<noteq> None" using assms(1) by (auto simp: srv_inv_def)
  then show ?thesis by blast
next
  case Aborting
  then have "srv_act AbortDone s \<noteq> None \<or> srv_act SlotEnds s \<noteq> None" using assms(1) by (auto simp: srv_inv_def)
  then show ?thesis by blast
next
  case Served
  then have "srv_act JoinServer s \<noteq> None" using assms(2) by simp
  then show ?thesis by blast
qed

section \<open>Slots are safe\<close>

lemma bp_max_new: "bp_max_bytes (buffer_pool_new nq n len m) = max m len"
  by (simp add: buffer_pool_new_def)

lemma receive_once_buffer_ok:
  "receive_once W A q b i flag needed k = (r, b', needed', k') \<Longrightarrow> buffer_ok sz mx b \<Longrightarrow> buffer_ok sz mx b'"
  by (auto simp: receive_once_def buffer_ok_contents split: prod.splits)

lemma receive_headers_buffer_ok:
  assumes "receive_headers W A q sz mx b mode i needed k = (r, b', mode', k')" and "buffer_ok sz mx b"
  shows "buffer_ok sz mx b'"
proof -
  obtain r1 b1 n1 k1 where o: "receive_once W A q b i False needed k = (r1, b1, n1, k1)" by (rule prod_cases4)
  with buffer_ok_fit [OF receive_once_buffer_ok [OF o assms(2)]] receive_once_buffer_ok [OF o assms(2)] assms(1) show ?thesis
    by (auto simp: receive_headers_def split: sum.splits prod.splits if_splits)
qed

lemma receive_buffer_ok:
  assumes "buffer_ok sz mx b" and "receive W A q sz mx b mode k = (r, b', mode', k')"
  shows "buffer_ok sz mx b'"
  using assms
  by (auto simp: receive_def dest: receive_once_buffer_ok receive_headers_buffer_ok split: if_splits prod.splits)

definition slot_inv :: "nat \<Rightarrow> nat \<Rightarrow> ('q, 'k) slot \<Rightarrow> bool" where
  "slot_inv sz mx s \<longleftrightarrow> buffer_pool_inv sz mx (sl_pool s)"

lemma serve_buffers_inv:
  assumes "aq_new_ok new_queue" and "pool \<in> set (serve_buffers new_queue config)"
    and "request_buffer_bytes config \<le> max_request_buffer_bytes config"
  shows "slot_inv sz (max_request_buffer_bytes config) (slot_start pool k)"
  using assms by (auto simp: slot_inv_def slot_start_def serve_buffers_def buffer_pool_inv_def buffer_pool_new_def aq_new_ok_def)

definition turn_ends :: "'a turn \<Rightarrow> 'a \<Rightarrow> bool" where
  "turn_ends x t \<longleftrightarrow> x \<in> {Continue t, Return t, Lost t}"

definition handlers_answer :: "(u64 \<rightharpoonup> 'k handler) \<Rightarrow> bool" where
  "handlers_answer routes \<longleftrightarrow> (\<forall>c h r k. routes c = Some h \<longrightarrow> h r k \<noteq> None)"

lemma slot_finish_sends:
  "\<exists>t. turn_ends (slot_finish W A q routes r b s) t \<and> sl_pool t = sl_pool s \<and>
     (sl_sent t = sl_sent s \<or> (\<exists>i resp. slot_finish W A q routes r b s = Continue t \<and> sl_sent t = sl_sent s @ [(i, resp)])) \<and>
     (handlers_answer routes \<longrightarrow> slot_finish W A q routes r b s \<noteq> Lost t)"
proof (cases r)
  case (Inr u)
  show ?thesis
    by (auto simp: slot_finish_def Inr Let_def turn_ends_def handlers_answer_def split: option.split) (metis option.distinct(1))
next
  case (Inl e)
  show ?thesis
    by (cases e) (auto simp: slot_finish_def Inl reply_def Let_def turn_ends_def)
qed

lemma slot_turn_safe:
  assumes inv: "slot_inv sz mx s"
  shows "\<exists>x t. slot_turn W A q sz routes s = Some x \<and> turn_ends x t \<and> slot_inv sz mx t \<and>
    (sl_sent t = sl_sent s \<or> (\<exists>i resp. x = Continue t \<and> sl_sent t = sl_sent s @ [(i, resp)])) \<and>
    (handlers_answer routes \<longrightarrow> x \<noteq> Lost t)"
proof -
  obtain p pool where tk: "buffer_pool_take sz (sl_pool s) = (p, pool)" by fastforce
  have pinv: "buffer_pool_inv sz mx pool" and ready: "pooled_buffer_ready sz mx p"
    using buffer_pool_take_keeps [OF _ tk] inv by (auto simp: slot_inv_def)
  from ready obtain b where b: "pooled_deref p = Some b" "buffer_ok sz mx b"
    by (auto simp: pooled_buffer_ready_def split: option.splits)
  have mx: "bp_max_bytes pool = mx" using pinv by (simp add: buffer_pool_inv_def)
  obtain r b' mode k where rc: "receive W A q sz mx b (sl_mode s) (sl_kernel s) = (r, b', mode, k)" by (rule prod_cases4)
  let ?pool = "pooled_buffer_drop \<lparr>pb_buffer = Some b'\<rparr> pool"
  let ?s = "s\<lparr>sl_pool := ?pool, sl_mode := mode, sl_kernel := k\<rparr>"
  have "buffer_pool_inv sz mx ?pool"
    using buffer_pool_put_keeps [OF pinv] receive_buffer_ok [OF b(2) rc]
    by (simp add: pooled_buffer_ready_def pooled_deref_def)
  moreover have "slot_turn W A q sz routes s = Some (slot_finish W A q routes r b' ?s)"
    using tk b(1) mx rc by (simp add: slot_turn_def)
  ultimately show ?thesis using slot_finish_sends [of W A q routes r b' ?s] by (auto simp: slot_inv_def)
qed

lemma slot_loop_safe:
  assumes "slot_inv sz mx s"
  shows "\<exists>x t. slot_loop n stop W A q sz routes s = Some x \<and> turn_ends x t \<and> slot_inv sz mx t \<and>
    length (sl_sent t) \<le> length (sl_sent s) + n \<and> (handlers_answer routes \<longrightarrow> x \<noteq> Lost t)"
  using assms
proof (induction n arbitrary: s)
  case 0
  then show ?case by (auto simp: turn_ends_def)
next
  case (Suc n)
  show ?case
  proof (cases "stop (sl_kernel s)")
    case True
    then show ?thesis using Suc.prems by (auto simp: turn_ends_def)
  next
    case False
    from slot_turn_safe [OF Suc.prems, of W A q routes] obtain x t where
      x: "slot_turn W A q sz routes s = Some x" "turn_ends x t" "handlers_answer routes \<longrightarrow> x \<noteq> Lost t" and
      t: "slot_inv sz mx t" "length (sl_sent t) \<le> Suc (length (sl_sent s))" by fastforce
    show ?thesis
    proof (cases "x = Continue t")
      case True
      with False x(1) t Suc.IH [OF t(1)] show ?thesis by fastforce
    next
      case ended: False
      with x(2) have "slot_loop (Suc n) stop W A q sz routes s = Some x" using False x(1) by (auto simp: turn_ends_def)
      then show ?thesis using x t by auto
    qed
  qed
qed

section \<open>What a service of slots promises\<close>

text \<open>
  The contract between a table of handlers and the slots that run it: as long as \<open>ok\<close> holds of the world, which the
  kernel's calls keep, every admitted request of a registered route is answered, with an \<open>answer\<close>, and \<open>ok\<close> holds again.
\<close>

lemma fit_body_keeps_or_clears: "fit_body sz mx b = (fits, b') \<Longrightarrow> contents b' \<in> {contents b, zeroed_request}"
  by (auto simp: fit_body_def grow_to_def request_buffer_new_def Let_def split: option.splits if_splits)

locale slot_service =
  fixes A :: "'k http_api" and routes :: "u64 \<rightharpoonup> 'k handler" and ok :: "'k \<Rightarrow> bool"
    and admits :: "HTTP_REQUEST_V2 \<Rightarrow> bool" and answer :: "Response \<Rightarrow> bool"
  assumes received: "ok k \<Longrightarrow> HttpReceiveHttpRequest A i flag cap k = (sb, filled, k') \<Longrightarrow> ok k' \<and> admits filled"
    and sent: "ok k \<Longrightarrow> HttpSendHttpResponse A i x cache k = (sb, k') \<Longrightarrow> ok k'"
    and handled: "ok k \<Longrightarrow> admits (contents (req_buffer r)) \<Longrightarrow> routes (url_context r) = Some h \<Longrightarrow>
      \<exists>response k'. h r k = Some (response, k') \<and> ok k' \<and> answer response"
    and cleared: "admits zeroed_request"
    and refused: "answer (response_new NOT_FOUND)" "answer (response_new HEADERS_TOO_LARGE)"
begin

lemma receive_once_ok:
  "ok k \<Longrightarrow> receive_once W A q b i flag needed k = (r, b', needed', k') \<Longrightarrow> ok k' \<and> admits (contents b')"
  by (auto simp: receive_once_def dest: received split: prod.splits)

lemma receive_headers_ok:
  assumes "ok k" and "receive_headers W A q sz mx b mode i needed k = (r, b', mode', k')"
  shows "ok k' \<and> admits (contents b')"
proof -
  obtain r1 b1 n1 k1 where o: "receive_once W A q b i False needed k = (r1, b1, n1, k1)" by (rule prod_cases4)
  from receive_once_ok [OF assms(1) o] assms(2) o cleared show ?thesis
    by (auto simp: receive_headers_def dest!: fit_body_keeps_or_clears split: sum.splits prod.splits if_splits)
qed

lemma receive_ok:
  assumes "ok k" and "receive W A q sz mx b mode k = (r, b', mode', k')"
  shows "ok k' \<and> admits (contents b')"
proof -
  obtain r1 b1 n1 k1 where o: "receive_once W A q b 0 True 0 k = (r1, b1, n1, k1)" by (rule prod_cases4)
  from receive_once_ok [OF assms(1) o] assms o show ?thesis
    by (auto simp: receive_def dest: receive_headers_ok split: if_splits)
qed

lemma send_ok: "ok k \<Longrightarrow> ok (snd (send_response W A q i response k))"
  by (auto simp: send_response_def dest: sent split: prod.splits)

lemma slot_finish_ok:
  assumes "ok (sl_kernel s)" and "admits (contents b)" and "\<forall>(i, response) \<in> set (sl_sent s). answer response"
  shows "\<exists>t. slot_finish W A q routes r b s \<in> {Continue t, Return t} \<and> ok (sl_kernel t) \<and> sl_pool t = sl_pool s \<and>
    (\<forall>(i, response) \<in> set (sl_sent t). answer response)"
proof (cases r)
  case (Inl e)
  then show ?thesis using assms refused send_ok
    by (cases e) (auto simp: slot_finish_def reply_def Let_def)
next
  case (Inr u)
  have "\<exists>response k'. (case routes (url_context \<lparr>req_buffer = b\<rparr>) of
        Some h \<Rightarrow> h \<lparr>req_buffer = b\<rparr> (sl_kernel s) | None \<Rightarrow> Some (response_new NOT_FOUND, sl_kernel s)) = Some (response, k') \<and>
      ok k' \<and> answer response"
    using handled [of "sl_kernel s" "\<lparr>req_buffer = b\<rparr>"] assms refused by (auto split: option.split)
  then show ?thesis using assms(3) send_ok by (auto simp: slot_finish_def Inr Let_def)
qed

lemma slot_turn_served:
  assumes "slot_inv sz mx s" and "ok (sl_kernel s)" and "\<forall>(i, response) \<in> set (sl_sent s). answer response"
    and "slot_turn W A q sz routes s = Some x"
  shows "\<exists>t. x \<in> {Continue t, Return t} \<and> ok (sl_kernel t) \<and> (\<forall>(i, response) \<in> set (sl_sent t). answer response)"
proof -
  obtain p pool b where tk: "buffer_pool_take sz (sl_pool s) = (p, pool)" "pooled_deref p = Some b"
    using assms(4) by (auto simp: slot_turn_def split: prod.splits option.splits)
  obtain r b' mode k where rc: "receive W A q sz (bp_max_bytes pool) b (sl_mode s) (sl_kernel s) = (r, b', mode, k)"
    by (rule prod_cases4)
  let ?s = "s\<lparr>sl_pool := pooled_buffer_drop \<lparr>pb_buffer = Some b'\<rparr> pool, sl_mode := mode, sl_kernel := k\<rparr>"
  have "x = slot_finish W A q routes r b' ?s" using assms(4) tk rc by (simp add: slot_turn_def)
  moreover have "ok k \<and> admits (contents b')" using receive_ok [OF assms(2) rc] .
  ultimately show ?thesis using slot_finish_ok [of ?s b' W q r] assms(3) by auto
qed

lemma slot_loop_served:
  assumes "slot_inv sz mx s" and "ok (sl_kernel s)" and "\<forall>(i, response) \<in> set (sl_sent s). answer response"
  shows "\<exists>x t. slot_loop n stop W A q sz routes s = Some x \<and> x \<in> {Continue t, Return t} \<and> slot_inv sz mx t \<and>
    ok (sl_kernel t) \<and> length (sl_sent t) \<le> length (sl_sent s) + n \<and> (\<forall>(i, response) \<in> set (sl_sent t). answer response)"
  using assms
proof (induction n arbitrary: s)
  case (Suc n)
  show ?case
  proof (cases "stop (sl_kernel s)")
    case True
    then show ?thesis using Suc.prems by auto
  next
    case go: False
    from slot_turn_safe [OF Suc.prems(1), of W A q routes] obtain x t where
      x: "slot_turn W A q sz routes s = Some x" "turn_ends x t" and t: "slot_inv sz mx t"
      "length (sl_sent t) \<le> Suc (length (sl_sent s))" by fastforce
    with slot_turn_served [OF Suc.prems x(1)] have served: "x \<in> {Continue t, Return t}" "ok (sl_kernel t)"
      "\<forall>(i, response) \<in> set (sl_sent t). answer response" by (auto simp: turn_ends_def)
    then consider "x = Continue t" | "x = Return t" by auto
    then show ?thesis
      using go x(1) t served Suc.IH [OF t(1) served(2,3)] by cases fastforce+
  qed
qed auto

end

fun srv_run :: "srv_action list \<Rightarrow> srv \<Rightarrow> srv option" where
  "srv_run [] s = Some s"
| "srv_run (a # as) s = (case srv_act a s of None \<Rightarrow> None | Some t \<Rightarrow> srv_run as t)"

lemma srv_run_reachable: "srv_reachable config s \<Longrightarrow> srv_run as s = Some t \<Longrightarrow> srv_reachable config t"
  by (induction as arbitrary: s) (auto split: option.splits intro: srv_reachable.step)

definition one_slot :: ServerConfig where
  "one_slot = (server_config_default None)\<lparr>concurrency := 1\<rparr>"

lemma owned_handles_drop_live:
  "live_after (owned_handles_drop K (owned_handles b)) l = live l - builder_held b"
proof -
  obtain l1 where l1: "run_state (request_queue_drop K (sb_queue b)) l = ((), l1)"
    by (cases "run_state (request_queue_drop K (sb_queue b)) l") simp
  have "live l1 = live l - queue_held (sb_queue b)" using request_queue_drop_live [of K "sb_queue b" l] l1 by simp
  then show ?thesis
    by (simp add: live_after_def owned_handles_drop_def owned_handles_def l1 url_group_drop_def server_session_drop_def
        http_initializer_drop_def live_step_def builder_held_def diff_diff_add add_mset_commute)
qed

text \<open>A server that has heard the message can always be run to its end.\<close>

lemma srv_run_append: "srv_run (as @ bs) s = (case srv_run as s of None \<Rightarrow> None | Some t \<Rightarrow> srv_run bs t)"
  by (induction as arbitrary: s) (auto split: option.split)

lemma srv_heard_step:
  assumes "srv_act a s = Some t" and "owner_pc s = JoiningServer" and "\<not> before_recv (pc s)"
    and "pc s = Receiving \<longrightarrow> 0 < messages s" and "pc s \<noteq> Served"
  shows "owner_pc t = JoiningServer \<and> \<not> before_recv (pc t) \<and> (pc t = Receiving \<longrightarrow> 0 < messages t)"
  using assms by (cases a; cases "pc s") (auto split: if_splits)

lemma srv_runs_to_end:
  assumes "srv_inv s" and "owner_pc s = JoiningServer" and "\<not> before_recv (pc s)" and "pc s = Receiving \<longrightarrow> 0 < messages s"
  shows "\<exists>as t. srv_run as s = Some t \<and> pc t = Served \<and> owner_pc t = JoiningServer \<and> srv_inv t"
  using assms
proof (induction "srv_weight s" arbitrary: s rule: less_induct)
  case less
  show ?case
  proof (cases "pc s = Served")
    case True
    then show ?thesis using less.prems by (intro exI [of _ "[]"]) auto
  next
    case False
    obtain a t where a: "srv_act a s = Some t" using srv_progress [OF less.prems(1,2)] less.prems(4) by auto
    note t = srv_heard_step [OF a less.prems(2-4) False]
    from less.hyps [OF srv_step_lighter [OF a less.prems(2)] srv_inv_step [OF less.prems(1) a]] t
    obtain as u where "srv_run as t = Some u" "pc u = Served" "owner_pc u = JoiningServer" "srv_inv u" by blast
    then show ?thesis using a by (intro exI [of _ "a # as"]) auto
  qed
qed

section \<open>Properties\<close>

text \<open>
  C17: building a server is all or nothing, up to the queue handle.  \<open>with_config\<close> either returns a builder
  with exactly its library, session, URL group, queue, port and threads open in addition, or, whichever of its
  calls fails, everything it had opened is released again, except that one queue handle may be left over;
  running the teardown of the server afterwards releases exactly what the builder held.
\<close>

theorem with_config_all_or_nothing:
  assumes "run_state (with_config K config) l = (r, l')"
  shows "case r of
      Inr b \<Rightarrow> live l' = builder_held b + live l \<and>
        live_after (owned_handles_drop K (owned_handles b)) l' = live l
    | Inl e \<Rightarrow> live l' = live l \<or> (\<exists>h. live l' = add_mset (RQueue h) (live l))"
proof -
  have acq: "case r of Inr b \<Rightarrow> live l' = builder_held b + live l | Inl e \<Rightarrow> at_most_queue (live l) (live l')"
    using acquiresD [OF with_config_acquires assms] by (simp cong: sum.case_cong)
  then show ?thesis by (cases r) (auto simp: at_most_queue_def owned_handles_drop_live)
qed

theorem with_config_all_or_nothing_witness:
  "case run_state (with_config willing_kernel (server_config_default (Some 4))) [] of
     (Inr b, l) \<Rightarrow> live l = builder_held (b :: unit ServerBuilder) | (Inl e, l) \<Rightarrow> True"
proof -
  obtain r l where run: "run_state (with_config willing_kernel (server_config_default (Some 4))) [] =
      (r :: unit ServerBuilder result, l)" by fastforce
  from with_config_all_or_nothing [OF run] run show ?thesis by (cases r) simp_all
qed


text \<open>
  C6: requests reach the handler of their prefix.  However many routes a program registers (fewer than \<open>2 ^ 64 - 1\<close>),
  and whichever of them the kernel refuses: the \<open>j\<close>-th call passes its prefix with the context number \<open>j + 1\<close>,
  and the table maps that number to the \<open>j\<close>-th handler exactly when the kernel accepted the prefix; no
  two prefixes share a number, and the number zero stays free.
\<close>

theorem routes_match_contexts:
  assumes "sb_routes b = Map.empty" and "sb_next_id b = 1" and "length us < 2 ^ 64 - 1"
    and "run_state (register K us b) l = ((rs, b'), l')" and "j < length us"
  shows "fst (l' ! (length l + j)) =
      HttpAddUrlToUrlGroup (group_id (sb_group b)) (normalize_prefix (fst (us ! j))) (1 + word_of_nat j) \<and>
    sb_routes b' (1 + word_of_nat j) = (if rc (snd (l' ! (length l + j))) = 0 then Some (snd (us ! j)) else None) \<and>
    sb_routes b' 0 = None"
proof -
  note R = register_routes [OF assms(4)]
  have len: "length rs = length us" and tk: "take (length l) l' = l" using R by auto
  have calls: "map fst (drop (length l) l') = map (\<lambda>j. HttpAddUrlToUrlGroup (group_id (sb_group b))
      (normalize_prefix (fst (us ! j))) (1 + word_of_nat j)) [0..<length us]" using R assms(2) by simp
  have "length (map fst (drop (length l) l')) = length us" unfolding calls by simp
  then have "length (drop (length l) l') = length us" by (simp only: length_map)
  then have nth: "drop (length l) l' ! j = l' ! (length l + j)" using assms(5) by (intro nth_drop) auto
  have "map fst (drop (length l) l') ! j = fst (l' ! (length l + j))"
    using assms(5) nth \<open>length (drop (length l) l') = length us\<close> by (subst nth_map) simp_all
  then have c: "fst (l' ! (length l + j)) =
      HttpAddUrlToUrlGroup (group_id (sb_group b)) (normalize_prefix (fst (us ! j))) (1 + word_of_nat j)"
    using calls assms(5) by simp
  have isl: "isl (rs ! j) \<longleftrightarrow> rc (snd (l' ! (length l + j))) \<noteq> 0" using R assms(5) nth by simp
  have small: "length us < 2 ^ 64" using assms(3) by simp
  have look: "sb_routes b' i = map_of (accepted_routes 1 rs us) i" for i
    using R assms(1,2) add_routes_lookup [OF accepted_routes_distinct [OF small], of 1 rs Map.empty i]
    by (simp split: option.splits)
  have "(0 :: u64) \<notin> fst ` set (accepted_routes (0 + 1) rs us)" by (rule accepted_routes_fresh [OF assms(3)])
  then have "sb_routes b' 0 = None" using look by (simp add: map_of_eq_None_iff)
  with c isl look accepted_routes_lookup [OF len small assms(5), of 1] show ?thesis by simp
qed

theorem routes_match_contexts_witness:
  "\<exists>l' rs b'. run_state (register willing_kernel [(''http://+:80/a'', True), (''http://+:80/b/'', False)]
      \<lparr>sb_init = \<lparr>initializer_private = ()\<rparr>, sb_session = \<lparr>session_id = 1\<rparr>, sb_group = \<lparr>group_session = \<lparr>session_id = 1\<rparr>, group_id = 2\<rparr>,
       sb_queue = test_queue, sb_routes = Map.empty, sb_next_id = 1, sb_config = server_config_default None\<rparr>) [] = ((rs, b'), l')
     \<and> sb_routes b' 2 = Some False"
proof -
  let ?us = "[(''http://+:80/a'', True), (''http://+:80/b/'', False)]"
  let ?b = "\<lparr>sb_init = \<lparr>initializer_private = ()\<rparr>, sb_session = \<lparr>session_id = 1\<rparr>, sb_group = \<lparr>group_session = \<lparr>session_id = 1\<rparr>, group_id = 2\<rparr>,
       sb_queue = test_queue, sb_routes = Map.empty, sb_next_id = 1, sb_config = server_config_default None\<rparr> :: bool ServerBuilder"
  obtain rs b' l' where run: "run_state (register willing_kernel ?us ?b) [] = ((rs, b'), l')"
    by (cases "run_state (register willing_kernel ?us ?b) []") auto
  then have "rc (snd (l' ! 1)) = 0" by (auto simp: run_route Let_def willing_kernel_def)
  with routes_match_contexts [OF _ _ _ run, of 1] run show ?thesis by auto
qed

text \<open>
  C13: a slot never panics of its own and answers at most once per turn.  For every kernel, every handler table and
  every moment the stop flag is raised, a slot that starts with the buffer pool \<open>serve\<close> gives it runs any number of
  turns without a failed dereference; its pool keeps its size bounds; after \<open>n\<close> turns it has sent at most
  \<open>n\<close> responses; and it is lost only to a handler that does not answer.
\<close>

theorem slot_never_panics:
  assumes "aq_new_ok new_queue" and "pool \<in> set (serve_buffers new_queue config)"
    and "request_buffer_bytes config \<le> max_request_buffer_bytes config"
  shows "\<exists>x t. slot_loop n stop W A q sz routes (slot_start pool k) = Some x \<and> x \<in> {Continue t, Return t, Lost t} \<and>
    buffer_pool_inv sz (max_request_buffer_bytes config) (sl_pool t) \<and> length (sl_sent t) \<le> n \<and>
    ((\<forall>c h r k. routes c = Some h \<longrightarrow> h r k \<noteq> None) \<longrightarrow> x \<noteq> Lost t)"
proof -
  from slot_loop_safe [OF serve_buffers_inv [OF assms], of n stop W A q sz routes k] show ?thesis
    by (simp add: slot_inv_def slot_start_def turn_ends_def handlers_answer_def)
qed

theorem slot_never_panics_witness:
  "\<exists>x t. slot_loop 3 (\<lambda>_. False) flag_env upload_api test_queue 864 Map.empty
       (slot_start (buffer_pool_new list_queue_new 1 16384 131072) ()) = Some x \<and> x \<in> {Continue t, Return t} \<and>
     length (sl_sent t) \<le> 3"
proof -
  let ?c = "server_config_default None"
  have "buffer_pool_new list_queue_new 1 16384 131072 \<in> set (serve_buffers list_queue_new ?c)"
    by (simp add: serve_buffers_def server_config_default_def Let_def)
  from slot_never_panics [OF list_queue_new_ok this, of 3 "\<lambda>_. False" flag_env upload_api test_queue 864 Map.empty "()"]
  show ?thesis by (fastforce simp: server_config_default_def Let_def)
qed

text \<open>
  C4: a received request is answered, once, by the handler of its route.  When \<open>receive\<close> succeeds and the
  buffer kept its size, the received request has an identifier other than zero and the turn sends exactly one response to it: the
  handler's response if the request's context is a registered route, and 404 otherwise.  A handler that never answers takes
  the slot with it, and nothing is sent.
\<close>

theorem slot_answers_request:
  assumes "buffer_pool_take sz (sl_pool s) = (p, pool)" and "pooled_deref p = Some b"
    and "receive_api_ok W (skip_on_success q) A" and "buffer_ok sz (bp_max_bytes pool) b"
    and "max (bp_max_bytes pool) (sz + 8) + 8 \<le> 2 ^ 32"
    and "receive W A q sz (bp_max_bytes pool) b (sl_mode s) (sl_kernel s) = (Inr (), b', mode, k)" and "words b' = words b"
  shows "request_id \<lparr>req_buffer = b'\<rparr> \<noteq> 0 \<and>
    (case (case routes (url_context \<lparr>req_buffer = b'\<rparr>) of
        None \<Rightarrow> Some (response_new NOT_FOUND, k) | Some h \<Rightarrow> h \<lparr>req_buffer = b'\<rparr> k) of
       Some (response, k') \<Rightarrow> \<exists>t. slot_turn W A q sz routes s = Some (Continue t) \<and>
         sl_sent t = sl_sent s @ [(request_id \<lparr>req_buffer = b'\<rparr>, response)] \<and>
         sl_kernel t = snd (send_response W A q (request_id \<lparr>req_buffer = b'\<rparr>) response k')
     | None \<Rightarrow> \<exists>t. slot_turn W A q sz routes s = Some (Lost t) \<and> sl_sent t = sl_sent s)"
  using receive_received [OF assms(3-6)] assms(7)
  by (intro conjI slot_turn_ok [OF assms(1,2,6), of routes])
    (simp add: request_id_def base_def buffer_request_id_def received_def)

theorem slot_answers_request_witness:
  "\<exists>t. slot_turn flag_env upload_api test_queue 864 (\<lambda>c. if c = 1 then Some (\<lambda>r k. Some (ok_text [104, 105], k)) else None)
       (slot_start (buffer_pool_new list_queue_new 1 81920 131072) ()) = Some (Continue t) \<and>
     sl_sent t = [(7, ok_text [104, 105])]"
proof -
  let ?pool = "buffer_pool_new list_queue_new 1 81920 131072" and ?b = "request_buffer_new 864 81920"
  let ?s = "slot_start ?pool ()"
  have tk: "buffer_pool_take 864 (sl_pool ?s) = (\<lparr>pb_buffer = Some ?b\<rparr>, ?pool)"
    by (simp add: slot_start_def buffer_pool_take_def buffer_pool_new_def aq_pop_def list_queue_new_def)
  have d: "pooled_deref \<lparr>pb_buffer = Some ?b\<rparr> = Some ?b" by (simp add: pooled_deref_def)
  have mx: "bp_max_bytes ?pool = 131072" by (simp add: buffer_pool_new_def)
  have ok: "buffer_ok 864 (bp_max_bytes ?pool) ?b" unfolding mx by (rule buffer_ok_new) simp
  have cap: "unat (capacity ?b) = 81920" by (simp add: capacity_def request_buffer_new_def Let_def div_ceil_def unat_as_u32)
  let ?b' = "(prepare ?b)\<lparr>contents := upload_request\<lparr>RequestId := 7\<rparr>\<rparr>"
  have rc: "receive flag_env upload_api test_queue 864 (bp_max_bytes ?pool) ?b (sl_mode ?s) (sl_kernel ?s) =
      (Inr (), ?b', receive_mode_default, ())"
    using cap by (simp add: receive_def receive_once_def receive_mode_default_def upload_api_def op_finish_def
        test_queue_def ERROR_MORE_DATA_def slot_start_def)
  from slot_answers_request [OF tk d upload_api_ok ok _ rc, of "\<lambda>c. if c = 1 then Some (\<lambda>r k. Some (ok_text [104, 105], k)) else None"]
  show ?thesis by (simp add: bp_max_new request_id_def url_context_def base_def upload_request_def slot_start_def)
qed

text \<open>
  C22: a request whose body makes the buffer grow is lost.  When a headers-only receive succeeds and the slot then
  grows its buffer for the next request, the received request is gone from the buffer: no handler
  runs, the slot sends a 404 to request number zero, and nothing is ever sent to the request that was received.
\<close>

theorem slot_loses_grown_request:
  assumes "buffer_pool_take sz (sl_pool s) = (p, pool)" and "pooled_deref p = Some b"
    and "\<not> copy_body (sl_mode s)"
    and "HttpReceiveHttpRequest A 0 False (capacity b) (sl_kernel s) = (sb, filled, k)"
    and "op_finish W (skip_on_success q) sb = Inr n"
    and "bp_max_bytes pool < U64_MAX" and "declared_body_len (b\<lparr>contents := filled\<rparr>) = Some d"
    and "d + HEADER_SLACK \<le> bp_max_bytes pool" and "unat (capacity b) < d + HEADER_SLACK" and "routes 0 = None"
  shows "\<exists>t. slot_turn W A q sz routes s = Some (Continue t) \<and> sl_sent t = sl_sent s @ [(0, response_new NOT_FOUND)]"
proof -
  let ?b = "b\<lparr>contents := filled\<rparr>" and ?new = "request_buffer_new sz (d + HEADER_SLACK)"
  have pb: "(prepare b)\<lparr>contents := filled\<rparr> = ?b" by (simp add: prepare_def)
  have "fit_body sz (bp_max_bytes pool) ?b = (True, ?new)"
    using fit_body_small [OF assms(7,6), of sz] assms(8,9) by (simp add: grow_to_def)
  then have rc: "receive W A q sz (bp_max_bytes pool) b (sl_mode s) (sl_kernel s) =
      (Inr (), ?new, (sl_mode s)\<lparr>copy_body := True\<rparr>, k)"
    using assms(3-5) by (simp add: receive_def receive_headers_def receive_once_def pb)
  have "contents ?new = zeroed_request" by (simp add: request_buffer_new_def Let_def)
  with slot_turn_ok [OF assms(1,2) rc, of routes] assms(10) show ?thesis
    by (auto simp: request_id_def url_context_def base_def)
qed

theorem slot_loses_grown_request_witness:
  "\<exists>t. slot_turn flag_env upload_api test_queue 864 (\<lambda>c. if c = 1 then Some (\<lambda>r k. Some (ok_text [104, 105], k)) else None)
       ((slot_start (buffer_pool_new list_queue_new 1 16384 131072) ())\<lparr>sl_mode := \<lparr>copy_body = False\<rparr>\<rparr>) = Some (Continue t) \<and>
     sl_sent t = [(0, response_new NOT_FOUND)]"
proof -
  let ?pool = "buffer_pool_new list_queue_new 1 16384 131072" and ?b = "request_buffer_new 864 16384"
  let ?s = "(slot_start ?pool ())\<lparr>sl_mode := \<lparr>copy_body = False\<rparr>\<rparr>"
  let ?sb = "\<lparr>sub_ec = 0, sub_bytes = 66000, sub_status = 0, sub_len = 0\<rparr>" and ?filled = "upload_request\<lparr>RequestId := 7\<rparr>"
  have tk: "buffer_pool_take 864 (sl_pool ?s) = (\<lparr>pb_buffer = Some ?b\<rparr>, ?pool)"
    by (simp add: slot_start_def buffer_pool_take_def buffer_pool_new_def aq_pop_def list_queue_new_def)
  have d: "pooled_deref \<lparr>pb_buffer = Some ?b\<rparr> = Some ?b" by (simp add: pooled_deref_def)
  have mode: "\<not> copy_body (sl_mode ?s)" by simp
  have rcv: "HttpReceiveHttpRequest upload_api 0 False (capacity ?b) (sl_kernel ?s) = (?sb, ?filled, ())"
    by (simp add: upload_api_def slot_start_def)
  have fin: "op_finish flag_env (skip_on_success test_queue) ?sb = Inr 66000"
    by (simp add: op_finish_def test_queue_def)
  have len: "declared_body_len (?b\<lparr>contents := ?filled\<rparr>) = Some 65536"
    by (rule declared_upload) (simp add: upload_request_def)
  have cap: "unat (capacity ?b) = 16384" by (simp add: capacity_def request_buffer_new_def Let_def div_ceil_def unat_as_u32)
  from slot_loses_grown_request [OF tk d mode rcv fin _ len, of "\<lambda>c. if c = 1 then Some (\<lambda>r k. Some (ok_text [104, 105], k)) else None"] cap
  show ?thesis by (simp add: bp_max_new U64_MAX_def HEADER_SLACK_def slot_start_def)
qed



lemma srv_stuck_step:
  assumes "srv_act a s = Some t" and "pc s = Receiving" and "messages s = 0" and "owner_pc s = JoiningServer"
  shows "pc t = Receiving \<and> messages t = 0 \<and> owner_pc t = JoiningServer"
  using assms by (cases a) (auto split: if_splits)

lemma srv_stuck_run:
  "srv_run as s = Some t \<Longrightarrow> pc s = Receiving \<Longrightarrow> messages s = 0 \<Longrightarrow> owner_pc s = JoiningServer \<Longrightarrow>
     pc t = Receiving \<and> owner_pc t = JoiningServer"
  by (induction as arbitrary: s) (auto split: option.splits dest: srv_stuck_step)

text \<open>Nothing replaces a slot: once the server has subscribed their number only falls, and a panic of a handler in each
  leaves a server that is up and serves nobody.\<close>

lemma slots_not_replaced: "srv_act a s = Some t \<Longrightarrow> \<not> before_recv (pc s) \<Longrightarrow> slots t \<le> slots s"
  by (cases a; cases "pc s") (auto split: if_splits owner.splits)

lemma srv_spawn_all:
  "srv_reachable config s \<Longrightarrow> pc s = Spawning n \<Longrightarrow> srv_reachable config (s\<lparr>pc := Subscribing, slots := slots s + n\<rparr>)"
proof (induction n arbitrary: s)
  case 0
  then show ?case using srv_reachable.step [OF 0(1), of SpawnSlot] by simp
next
  case (Suc n)
  have "srv_reachable config (s\<lparr>pc := Spawning n, slots := Suc (slots s)\<rparr>)"
    using srv_reachable.step [OF Suc.prems(1), of SpawnSlot] Suc.prems(2) by simp
  from Suc.IH [OF this] show ?case by simp
qed

lemma srv_slots_die: "srv_reachable config s \<Longrightarrow> srv_reachable config (s\<lparr>slots := slots s - n\<rparr>)"
proof (induction n)
  case (Suc n)
  let ?s = "s\<lparr>slots := slots s - n\<rparr>"
  show ?case
  proof (cases "0 < slots ?s")
    case True
    then show ?thesis using srv_reachable.step [OF Suc.IH [OF Suc.prems], of SlotDies] by (simp add: Suc_diff_Suc)
  next
    case False
    then show ?thesis using Suc.IH [OF Suc.prems] by simp
  qed
qed simp

lemma server_without_slots: "\<exists>s. srv_reachable config s \<and> pc s = Receiving \<and> slots s = 0 \<and> owner_pc s = Owning"
proof -
  have "srv_reachable config ((srv_init config)\<lparr>pc := Subscribing, slots := concurrency config\<rparr>)"
    using srv_spawn_all [OF srv_reachable.init, of config "concurrency config"] by (simp add: srv_init_def)
  from srv_reachable.step [OF this, of Subscribe]
  have "srv_reachable config ((srv_init config)\<lparr>pc := Receiving, slots := concurrency config, subscribed := True\<rparr>)"
    by (simp add: srv_init_def)
  from srv_slots_die [OF this, of "concurrency config"] show ?thesis
    by (rule_tac exI [of _ "(srv_init config)\<lparr>pc := Receiving, slots := 0, subscribed := True\<rparr>"], intro conjI)
      (simp_all add: srv_init_def)
qed


end
