(* ===== verification/Bench_Float.thy ===== *)
theory Bench_Float
  imports Httpsys_Prelude
begin

text \<open>
  The \<open>f64\<close> of the benchmark tool.

  A value is its 64 bits.  What the tool \<^emph>\<open>decides\<close> with floats is defined on the bits: \<open>total_cmp\<close>, the partial
  order of \<open><\<close> and \<open>>=\<close>, \<open>is_finite\<close>, \<open>max\<close> and \<open>min\<close>.  The rounding arithmetic, the decimal conversions and
  \<open>Duration::from_secs_f64\<close> are those of the processor and the compiler's runtime: the record \<open>float_env\<close>
  is a parameter of everything that computes with them, so that the theorems hold for any rounding.  The type is an
  instance of the library's \<open>linorder\<close> with the order of \<open>total_cmp\<close>, which is what sorting and
  \<open>max_by\<close> use.
\<close>

datatype f64 = F64 (bits: u64)

section \<open>Classification and order\<close>

definition f64_magnitude :: "f64 \<Rightarrow> u64" where
  "f64_magnitude x = bits x AND 0x7FFFFFFFFFFFFFFF"

definition f64_inf_bits :: u64 where
  "f64_inf_bits = 0x7FF0000000000000"

definition is_nan :: "f64 \<Rightarrow> bool" where
  "is_nan x \<longleftrightarrow> f64_inf_bits < f64_magnitude x"

definition is_finite :: "f64 \<Rightarrow> bool" where
  "is_finite x \<longleftrightarrow> f64_magnitude x < f64_inf_bits"

definition is_zero :: "f64 \<Rightarrow> bool" where
  "is_zero x \<longleftrightarrow> f64_magnitude x = 0"

text \<open>\<open>total_cmp\<close>: the bits as a signed integer, the magnitude flipped below zero.\<close>

definition total_key :: "f64 \<Rightarrow> int" where
  "total_key x = sint (if bit (bits x) 63 then bits x XOR 0x7FFFFFFFFFFFFFFF else bits x)"

lemma flip_63: "bit ((w :: u64) XOR 0x7FFFFFFFFFFFFFFF) 63 = bit w 63"
  by (simp add: bit_xor_iff)

lemma total_key_inject: "total_key x = total_key y \<longleftrightarrow> x = y"
proof
  assume "total_key x = total_key y"
  then have same: "(if bit (bits x) 63 then bits x XOR 0x7FFFFFFFFFFFFFFF else bits x) =
      (if bit (bits y) 63 then bits y XOR 0x7FFFFFFFFFFFFFFF else bits y)" (is "?a = ?b")
    unfolding total_key_def by (rule signed_word_eqI)
  have "bit ?a 63 = bit (bits x) 63" "bit ?b 63 = bit (bits y) 63"
    by (simp_all add: flip_63)
  with same have sign: "bit (bits x) 63 = bit (bits y) 63" by simp
  have "bits x = bits y"
  proof (cases "bit (bits x) 63")
    case True
    with same sign have "(bits x XOR 0x7FFFFFFFFFFFFFFF) XOR 0x7FFFFFFFFFFFFFFF =
        (bits y XOR 0x7FFFFFFFFFFFFFFF) XOR 0x7FFFFFFFFFFFFFFF" by simp
    then show ?thesis by (simp add: xor.assoc)
  next
    case False
    then show ?thesis using same sign by simp
  qed
  then show "x = y" by (cases x, cases y) simp
qed simp

instantiation f64 :: linorder
begin

definition less_eq_f64 :: "f64 \<Rightarrow> f64 \<Rightarrow> bool" where
  "less_eq_f64 x y \<longleftrightarrow> total_key x \<le> total_key y"

definition less_f64 :: "f64 \<Rightarrow> f64 \<Rightarrow> bool" where
  "less_f64 x y \<longleftrightarrow> total_key x < total_key y"

instance
  by standard (auto simp: less_eq_f64_def less_f64_def total_key_inject)

end

text \<open>The operators \<open><\<close> and \<open>>=\<close>: false on NaN, both zeros equal.\<close>

definition f_lt :: "f64 \<Rightarrow> f64 \<Rightarrow> bool" where
  "f_lt x y \<longleftrightarrow> \<not> is_nan x \<and> \<not> is_nan y \<and> \<not> (is_zero x \<and> is_zero y) \<and> x < y"

definition f_ge :: "f64 \<Rightarrow> f64 \<Rightarrow> bool" where
  "f_ge x y \<longleftrightarrow> \<not> is_nan x \<and> \<not> is_nan y \<and> (is_zero x \<and> is_zero y \<or> y \<le> x)"

text \<open>\<open>f64::max\<close> and \<open>f64::min\<close>: a NaN gives way to the other argument.\<close>

definition f_max :: "f64 \<Rightarrow> f64 \<Rightarrow> f64" where
  "f_max x y = (if is_nan x then y else if is_nan y then x else if f_lt x y then y else x)"

definition f_min :: "f64 \<Rightarrow> f64 \<Rightarrow> f64" where
  "f_min x y = (if is_nan x then y else if is_nan y then x else if f_lt y x then y else x)"

section \<open>Constants\<close>

definition f_0 :: f64 where "f_0 = F64 0"

definition f_1 :: f64 where "f_1 = F64 0x3FF0000000000000"

definition f_10 :: f64 where "f_10 = F64 0x4024000000000000"

definition f_100 :: f64 where "f_100 = F64 0x4059000000000000"

definition f_1e3 :: f64 where "f_1e3 = F64 0x408F400000000000"

definition f_1e6 :: f64 where "f_1e6 = F64 0x412E848000000000"

definition f_KIB :: f64 where "f_KIB = F64 0x4090000000000000"

definition f_MIB :: f64 where "f_MIB = F64 0x4130000000000000"

definition f_MIN_POSITIVE :: f64 where "f_MIN_POSITIVE = F64 0x0010000000000000"

definition f_INFINITY :: f64 where "f_INFINITY = F64 f64_inf_bits"

definition f_NEG_INFINITY :: f64 where "f_NEG_INFINITY = F64 0xFFF0000000000000"

section \<open>Arithmetic\<close>

text \<open>
  A \<open>Duration\<close> is its nanoseconds.  \<open>fp_to_usize\<close> is the saturating cast \<open>as usize\<close>, \<open>fp_fixed\<close>
  prints with a number of decimals, \<open>fp_from_secs\<close> is \<open>Duration::from_secs_f64\<close> with \<open>None\<close> its panic.
\<close>

type_synonym Duration = nat

record float_env =
  fp_of_nat :: "nat \<Rightarrow> f64"
  fp_add :: "f64 \<Rightarrow> f64 \<Rightarrow> f64"
  fp_sub :: "f64 \<Rightarrow> f64 \<Rightarrow> f64"
  fp_mul :: "f64 \<Rightarrow> f64 \<Rightarrow> f64"
  fp_div :: "f64 \<Rightarrow> f64 \<Rightarrow> f64"
  fp_to_usize :: "f64 \<Rightarrow> nat"
  fp_fixed :: "nat \<Rightarrow> f64 \<Rightarrow> string"
  fp_parse :: "string \<Rightarrow> f64 option"
  fp_from_secs :: "f64 \<Rightarrow> Duration option"
  fp_as_secs :: "Duration \<Rightarrow> f64"

section \<open>Order lemmas\<close>

lemma f_ge_refl: "\<not> is_nan x \<Longrightarrow> f_ge x x"
  by (simp add: f_ge_def)

lemma f_lt_iff_not_ge: "\<not> is_nan x \<Longrightarrow> \<not> is_nan y \<Longrightarrow> f_lt x y \<longleftrightarrow> \<not> f_ge x y"
  by (auto simp: f_lt_def f_ge_def)

text \<open>\<open>Iterator::max_by\<close>: of several greatest elements the last.\<close>

fun max_by_key :: "('a \<Rightarrow> 'b::linorder) \<Rightarrow> 'a list \<Rightarrow> 'a option" where
  "max_by_key f [] = None"
| "max_by_key f (x # xs) = Some (foldl (\<lambda>m y. if f m \<le> f y then y else m) x xs)"

lemma foldl_max_by:
  fixes f :: "'a \<Rightarrow> 'b::linorder"
  shows "foldl (\<lambda>m y. if f m \<le> f y then y else m) x xs \<in> insert x (set xs) \<and>
    (\<forall>y \<in> insert x (set xs). f y \<le> f (foldl (\<lambda>m y. if f m \<le> f y then y else m) x xs))"
proof (induction xs arbitrary: x)
  case (Cons z zs)
  show ?case using Cons [of "if f x \<le> f z then z else x"] by (auto split: if_splits)
qed simp

lemma max_by_key_None: "max_by_key f xs = None \<longleftrightarrow> xs = []"
  by (cases xs) auto

lemma max_by_key_Some:
  assumes "max_by_key f xs = Some m"
  shows "m \<in> set xs" and "\<And>y. y \<in> set xs \<Longrightarrow> f y \<le> f m"
  using assms foldl_max_by [of f "hd xs" "tl xs"] by (cases xs; auto)+

end
