(* ===== verification/Bench_Fmt.thy ===== *)
theory Bench_Fmt
  imports Httpsys_Error Bench_Float "HOL-Library.Sublist"
begin

text \<open>
  The textual parts of the benchmark tool: numbers for people and byte sizes on the command line
  (\<open>tools/httpbench/src/fmt.rs\<close>), durations (\<open>main.rs\<close>), engine names, the shutdown path and the URL-ACL hint
  (\<open>servers.rs\<close>).  Text is a list of UTF-8 bytes; the operations on ASCII letters work bytewise because
  no byte of a longer encoding is an ASCII letter.
\<close>

section \<open>Numbers for people\<close>

definition fmt_bytes :: "float_env \<Rightarrow> f64 \<Rightarrow> string" where
  "fmt_bytes F value =
     (if f_ge value f_MIB then fp_fixed F 0 (fp_div F value f_MIB) @ '' MiB''
      else if f_ge value f_KIB then fp_fixed F 0 (fp_div F value f_KIB) @ '' KiB''
      else fp_fixed F 0 value @ '' B'')"

definition fmt_millis :: "float_env \<Rightarrow> f64 \<Rightarrow> string" where
  "fmt_millis F value =
     (if f_ge value f_100 then fp_fixed F 0 value @ '' ms''
      else if f_ge value f_10 then fp_fixed F 1 value @ '' ms''
      else fp_fixed F 2 value @ '' ms'')"

definition fmt_rate :: "float_env \<Rightarrow> f64 \<Rightarrow> string" where
  "fmt_rate F value =
     (if f_ge value f_1e6 then fp_fixed F 1 (fp_div F value f_1e6) @ ''M''
      else if f_ge value f_1e3 then fp_fixed F 0 (fp_div F value f_1e3) @ ''k''
      else fp_fixed F 0 value)"

definition fmt_count :: "float_env \<Rightarrow> f64 \<Rightarrow> string" where
  "fmt_count F value = fp_fixed F 0 value"

definition fmt_cores :: "float_env \<Rightarrow> f64 \<Rightarrow> string" where
  "fmt_cores F value = fp_fixed F 2 value"

definition fmt_mib_per_second :: "float_env \<Rightarrow> f64 \<Rightarrow> string" where
  "fmt_mib_per_second F value = fp_fixed F 0 value"

section \<open>Byte sizes and durations\<close>

definition is_ascii_alphabetic :: "char \<Rightarrow> bool" where
  "is_ascii_alphabetic c \<longleftrightarrow>
     (65 \<le> (of_char c :: nat) \<and> (of_char c :: nat) \<le> 90) \<or> (97 \<le> (of_char c :: nat) \<and> (of_char c :: nat) \<le> 122)"

definition to_ascii_lower :: "char \<Rightarrow> char" where
  "to_ascii_lower c =
     (if 65 \<le> (of_char c :: nat) \<and> (of_char c :: nat) \<le> 90 then char_of ((of_char c :: nat) + 32) else c)"

definition to_ascii_lowercase :: "string \<Rightarrow> string" where
  "to_ascii_lowercase s = map to_ascii_lower s"

definition strip_suffix :: "string \<Rightarrow> string" where
  "strip_suffix s = rev (dropWhile is_ascii_alphabetic (rev s))"

text \<open>
  \<open>parse_bytes\<close>; the product of a number and its unit is checked or wraps, depending on how the tool was built
  (\<open>overflow_checks\<close>), and \<open>None\<close> is the panic of the checked one.
\<close>

definition parse_bytes :: "bool \<Rightarrow> string \<Rightarrow> (string + nat) option" where
  "parse_bytes overflow_checks text =
     (let trimmed = trim text;
          t = to_ascii_lowercase trimmed;
          (digits, multiplier) =
            (if suffix ''gib'' t \<or> suffix ''g'' t then (strip_suffix trimmed, 1024 * 1024 * 1024)
             else if suffix ''mib'' t \<or> suffix ''m'' t then (strip_suffix trimmed, 1024 * 1024)
             else if suffix ''kib'' t \<or> suffix ''k'' t then (strip_suffix trimmed, 1024)
             else if suffix ''b'' t then (strip_suffix trimmed, 1)
             else (trimmed, 1))
      in case parse_uint U64_MAX (trim digits) of
           None \<Rightarrow> Some (Inl ([CHR 0x27] @ text @ [CHR 0x27] @ '' is not a byte size''))
         | Some n \<Rightarrow>
             if n * multiplier \<le> U64_MAX then Some (Inr (n * multiplier))
             else if overflow_checks then None else Some (Inr (n * multiplier mod 2 ^ 64)))"

definition trim_end_matches :: "char \<Rightarrow> string \<Rightarrow> string" where
  "trim_end_matches c s = rev (dropWhile (\<lambda>x. x = c) (rev s))"

text \<open>\<open>parse_seconds\<close> of \<open>main.rs\<close>; \<open>None\<close> is the panic of \<open>Duration::from_secs_f64\<close>.\<close>

definition parse_seconds :: "float_env \<Rightarrow> string \<Rightarrow> (string + Duration) option" where
  "parse_seconds F text =
     (case fp_parse F (trim_end_matches (CHR ''s'') (trim text)) of
        None \<Rightarrow> Some (Inl ([CHR 0x27] @ text @ [CHR 0x27] @ '' is not a number of seconds''))
      | Some s \<Rightarrow>
          if is_finite s \<and> f_ge s f_0 then map_option Inr (fp_from_secs F s)
          else Some (Inl ([CHR 0x27] @ text @ [CHR 0x27] @ '' is not a valid duration'')))"

section \<open>Engines and paths\<close>

datatype Engine = Engine_Httpsys | Engine_Axum

fun label :: "Engine \<Rightarrow> string" where
  "label Engine_Httpsys = ''httpsys''"
| "label Engine_Axum = ''axum''"

definition BENCH_PATH :: string where
  "BENCH_PATH = ''/bench/''"

definition rsplit_once :: "char \<Rightarrow> string \<Rightarrow> (string \<times> string) option" where
  "rsplit_once c s =
     (if c \<in> set s then Some (rev (tl (dropWhile (\<lambda>x. x \<noteq> c) (rev s))), rev (takeWhile (\<lambda>x. x \<noteq> c) (rev s)))
      else None)"

definition shutdown_path :: "string \<Rightarrow> string" where
  "shutdown_path bench_path =
     (case rsplit_once (CHR ''/'') (trim_end_matches (CHR ''/'') bench_path) of
        Some (head, tail) \<Rightarrow> head
      | None \<Rightarrow> '''') @ ''/shutdown/''"

definition url_acl_hint :: "(u32 \<Rightarrow> string) \<Rightarrow> Error \<Rightarrow> u16 \<Rightarrow> string \<Rightarrow> string" where
  "url_acl_hint message e port path =
     (let p = decimal (unat port); shown = fmt_error message e in
      if win32_code e = Some 5 then
        ''cannot reserve http://+:'' @ p @ path @ '' ('' @ shown @ '').'' @ [CHR 0x0A] @
        ''Either run once as administrator:'' @ [CHR 0x0A] @ ''    '' @
        ''netsh http add urlacl url=http://+:'' @ p @ ''/ user=Everyone'' @ [CHR 0x0A] @
        ''or reuse the reservation every user already has:'' @ [CHR 0x0A] @ ''    '' @
        ''--port 80 --path /Temporary_Listen_Addresses/bench/''
      else ''cannot reserve http://+:'' @ p @ path @ '': '' @ shown)"

section \<open>Lemmas\<close>

definition is_digit :: "char \<Rightarrow> bool" where
  "is_digit c \<longleftrightarrow> digit_val c \<noteq> None"

lemma is_digit_iff: "is_digit c \<longleftrightarrow> 48 \<le> (of_char c :: nat) \<and> (of_char c :: nat) \<le> 57"
  by (auto simp: is_digit_def digit_val_def Let_def)

lemma digit_not_alpha: "is_digit c \<Longrightarrow> \<not> is_ascii_alphabetic c"
  by (auto simp: is_digit_iff is_ascii_alphabetic_def)

lemma lower_digit: "is_digit c \<Longrightarrow> to_ascii_lower c = c"
  by (auto simp: is_digit_iff to_ascii_lower_def)

lemma leading_seq_hd:
  assumes "\<And>w. w \<in> set ws \<Longrightarrow> w \<noteq> [] \<Longrightarrow> hd w \<noteq> c"
  shows "leading_seq ws (c # s) = None"
proof -
  have "take (length w) (c # s) \<noteq> w" if "w \<in> set ws" "w \<noteq> []" for w
    using assms [OF that] that(2) by (cases w) auto
  then show ?thesis by (auto simp: leading_seq_def find_None_iff)
qed

lemma white_space_ends:
  assumes "w \<in> set white_space"
  shows "w \<noteq> [] \<and> of_char (hd w) \<in> {9, 10, 11, 12, 13, 32, 194, 225, 226, 227 :: nat} \<and>
    (of_char (last w) \<in> {9, 10, 11, 12, 13, 32 :: nat} \<or> 128 \<le> (of_char (last w) :: nat))"
  using assms unfolding white_space_def bytes_def by auto

lemma trim_visible_start:
  assumes "s \<noteq> []" and "33 \<le> (of_char (hd s) :: nat) \<and> (of_char (hd s) :: nat) \<le> 126"
  shows "trim_start s = s"
proof -
  have "leading_seq white_space (hd s # tl s) = None"
    using white_space_ends assms(2) by (intro leading_seq_hd) fastforce
  then show ?thesis using assms(1) by (simp add: trim_start_def strip_seqs_id)
qed

lemma trim_visible_end:
  assumes "s \<noteq> []" and "33 \<le> (of_char (last s) :: nat) \<and> (of_char (last s) :: nat) \<le> 126"
  shows "trim_end s = s"
proof -
  have "leading_seq (map rev white_space) (last s # tl (rev s)) = None"
    using white_space_ends assms(2) by (intro leading_seq_hd) (fastforce simp: hd_rev)
  moreover have "last s # tl (rev s) = rev s" using assms(1) by (metis hd_Cons_tl hd_rev rev_is_Nil_conv)
  ultimately show ?thesis by (simp add: trim_end_def strip_seqs_id)
qed

lemma trim_visible:
  assumes "s \<noteq> []" and "33 \<le> (of_char (hd s) :: nat) \<and> (of_char (hd s) :: nat) \<le> 126"
    and "33 \<le> (of_char (last s) :: nat) \<and> (of_char (last s) :: nat) \<le> 126"
  shows "trim s = s"
  using assms by (simp add: trim_def trim_visible_start trim_visible_end)

lemma trim_word:
  assumes "s \<noteq> []" and "is_digit (hd s) \<or> is_ascii_alphabetic (hd s)" and "is_digit (last s) \<or> is_ascii_alphabetic (last s)"
  shows "trim s = s"
  using assms by (intro trim_visible) (auto simp: is_digit_iff is_ascii_alphabetic_def)

lemma white_space_blank:
  assumes "w \<in> set white_space"
  shows "hd w = CHR '' '' \<Longrightarrow> w = '' ''" "last w = CHR '' '' \<Longrightarrow> w = '' ''"
  using assms unfolding white_space_def bytes_def by (auto simp: char_of_eq_iff take_bit_eq_mod)

lemma blank_is_white: "'' '' \<in> set white_space"
  by (simp add: white_space_def bytes_def eq_commute [of "CHR '' ''"] char_of_eq_iff take_bit_eq_mod)

lemma leading_blank:
  assumes "'' '' \<in> set ws" and "\<And>w. w \<in> set ws \<Longrightarrow> hd w = CHR '' '' \<Longrightarrow> w = '' ''"
  shows "strip_seqs ws (CHR '' '' # s) = strip_seqs ws s"
proof -
  have "leading_seq ws (CHR '' '' # s) \<noteq> None" using assms(1) by (auto simp: leading_seq_def find_None_iff)
  moreover have "w = '' ''" if "leading_seq ws (CHR '' '' # s) = Some w" for w
  proof (rule assms(2))
    from that show "w \<in> set ws" by (auto simp: leading_seq_def find_Some_iff)
    from that have "w \<noteq> []" "take (length w) (CHR '' '' # s) = w" by (auto simp: leading_seq_def find_Some_iff)
    then show "hd w = CHR '' ''" by (metis hd_take length_greater_0_conv list.sel(1))
  qed
  ultimately show ?thesis by (auto simp: strip_seqs.simps [of ws "CHR '' '' # s"])
qed

lemma trim_blank: "trim_start (CHR '' '' # s) = trim_start s" "trim_end (s @ '' '') = trim_end s"
proof -
  show "trim_start (CHR '' '' # s) = trim_start s"
    unfolding trim_start_def by (intro leading_blank blank_is_white white_space_blank)
  have "strip_seqs (map rev white_space) (CHR '' '' # rev s) = strip_seqs (map rev white_space) (rev s)"
  proof (rule leading_blank)
    show "'' '' \<in> set (map rev white_space)" using blank_is_white by force
  next
    fix w
    assume "w \<in> set (map rev white_space)" and "hd w = CHR '' ''"
    then show "w = '' ''" using white_space_blank(2) [of "rev w"] by (auto simp: hd_rev)
  qed
  then show "trim_end (s @ '' '') = trim_end s" by (simp add: trim_end_def)
qed

lemma decimal_all_digits: "c \<in> set (decimal n) \<Longrightarrow> is_digit c"
  using decimal_digits by (auto simp: is_digit_def)

lemma decimal_hd_last: "is_digit (hd (decimal n))" "is_digit (last (decimal n))"
  using decimal_all_digits decimal_nonempty by (metis hd_in_set, metis last_in_set)

lemma trim_decimal:
  assumes "list_all is_ascii_alphabetic x"
  shows "trim (decimal n @ x) = decimal n @ x"
proof (rule trim_word)
  show "is_digit (last (decimal n @ x)) \<or> is_ascii_alphabetic (last (decimal n @ x))"
    using assms decimal_hd_last(2) [of n] by (auto simp: last_append list_all_iff)
qed (simp_all add: decimal_nonempty decimal_hd_last)

lemma strip_suffix_decimal:
  assumes "list_all is_ascii_alphabetic x"
  shows "strip_suffix (decimal n @ x) = decimal n"
proof -
  have "dropWhile is_ascii_alphabetic (rev x @ rev (decimal n)) = dropWhile is_ascii_alphabetic (rev (decimal n))"
    using assms by (intro dropWhile_append2) (auto simp: list_all_iff)
  also have "\<dots> = rev (decimal n)"
    using digit_not_alpha [OF decimal_hd_last(2) [of n]] by (simp add: dropWhile_eq_self_iff hd_rev decimal_nonempty)
  finally show ?thesis by (simp add: strip_suffix_def)
qed

lemma lowercase_decimal: "to_ascii_lowercase (decimal n @ x) = decimal n @ to_ascii_lowercase x"
  using lower_digit decimal_all_digits by (auto simp: to_ascii_lowercase_def map_idI)

lemma suffix_decimal:
  assumes "p \<noteq> []" and "\<And>c. c \<in> set p \<Longrightarrow> \<not> is_digit c"
  shows "suffix p (decimal n @ x) \<longleftrightarrow> suffix p x"
proof
  assume "suffix p (decimal n @ x)"
  then consider "suffix p x" | p' where "p = p' @ x" "suffix p' (decimal n)"
    unfolding suffix_append by blast
  then show "suffix p x"
  proof cases
    case 2
    have "set p' \<subseteq> set (decimal n)" using 2(2) by (rule set_mono_suffix)
    then have "p' = []" using assms(2) decimal_all_digits 2(1) by (cases p') auto
    then show ?thesis using 2(1) by simp
  qed
qed (simp add: suffix_appendI)

text \<open>What a number with a unit of letters parses to.\<close>

definition unit_multiplier :: "string \<Rightarrow> nat" where
  "unit_multiplier t =
     (if suffix ''gib'' t \<or> suffix ''g'' t then 1024 * 1024 * 1024
      else if suffix ''mib'' t \<or> suffix ''m'' t then 1024 * 1024
      else if suffix ''kib'' t \<or> suffix ''k'' t then 1024 else 1)"

lemma parse_bytes_decimal:
  assumes "list_all is_ascii_alphabetic x" and "n \<le> U64_MAX" and "x = [] \<or> suffix ''b'' (to_ascii_lowercase x) \<or>
      unit_multiplier (to_ascii_lowercase x) \<noteq> 1"
  defines "v \<equiv> n * unit_multiplier (to_ascii_lowercase x)"
  shows "parse_bytes chk (decimal n @ x) =
    (if v \<le> U64_MAX then Some (Inr v) else if chk then None else Some (Inr (v mod 2 ^ 64)))"
proof -
  have plain: "suffix p (decimal n @ y) \<longleftrightarrow> suffix p y" if "p \<in> {''gib'', ''g'', ''mib'', ''m'', ''kib'', ''k'', ''b''}" for p y
    using that by (intro suffix_decimal) (auto simp: is_digit_iff)
  have "trim (decimal n) = decimal n" using trim_decimal [of "[]"] by simp
  then show ?thesis using assms(1-3)
    by (auto simp: v_def parse_bytes_def Let_def trim_decimal strip_suffix_decimal lowercase_decimal plain parse_uint_decimal
        unit_multiplier_def split: if_splits)
qed

lemma lower_alpha: "is_ascii_alphabetic (to_ascii_lower c) \<Longrightarrow> is_ascii_alphabetic c"
  by (auto simp: is_ascii_alphabetic_def to_ascii_lower_def split: if_splits)

definition byte_units :: "(string \<times> nat) list" where
  "byte_units =
     [('''', 1), (''b'', 1), (''k'', 2 ^ 10), (''kib'', 2 ^ 10), (''m'', 2 ^ 20), (''mib'', 2 ^ 20),
      (''g'', 2 ^ 30), (''gib'', 2 ^ 30), (''kb'', 1), (''mb'', 1), (''gb'', 1)]"

lemma byte_units_alpha:
  assumes "(to_ascii_lowercase u, m) \<in> set byte_units"
  shows "list_all is_ascii_alphabetic u"
proof -
  have "list_all is_ascii_alphabetic t" if "(t, m) \<in> set byte_units" for t
    using that by (auto simp: byte_units_def is_ascii_alphabetic_def)
  from this [OF assms] show ?thesis using lower_alpha by (auto simp: to_ascii_lowercase_def list_all_iff)
qed

lemma byte_units_multiplier:
  assumes "(t, m) \<in> set byte_units"
  shows "unit_multiplier t = m" and "t = [] \<or> suffix ''b'' t \<or> unit_multiplier t \<noteq> 1"
  using assms by (auto simp: byte_units_def unit_multiplier_def suffix_def Cons_eq_append_conv)

text \<open>
  C36: A decimal number followed by a unit, in any case, parses to the number times the unit: one for none and
  \<open>b\<close>, and the powers of 1024 for \<open>k\<close>, \<open>kib\<close>, \<open>m\<close>, \<open>mib\<close>, \<open>g\<close>, \<open>gib\<close>.  Two consequences are not what a user
  expects: \<open>kb\<close>, \<open>mb\<close> and \<open>gb\<close> are accepted with multiplier one, so that \<open>4KB\<close> is four bytes, and a product
  above the range of \<open>usize\<close> panics or wraps instead of being reported as not a byte size.
\<close>

theorem parse_bytes_units:
  assumes "n \<le> U64_MAX" and "(to_ascii_lowercase u, m) \<in> set byte_units"
  shows "parse_bytes overflow_checks (decimal n @ u) =
    (if n * m \<le> U64_MAX then Some (Inr (n * m))
     else if overflow_checks then None else Some (Inr (n * m mod 2 ^ 64)))"
proof -
  have "u = [] \<or> suffix ''b'' (to_ascii_lowercase u) \<or> unit_multiplier (to_ascii_lowercase u) \<noteq> 1"
    using byte_units_multiplier(2) [OF assms(2)] by (auto simp: to_ascii_lowercase_def)
  from parse_bytes_decimal [OF byte_units_alpha [OF assms(2)] assms(1) this] show ?thesis
    by (simp add: byte_units_multiplier(1) [OF assms(2)])
qed

theorem parse_bytes_units_witness:
  "parse_bytes True (decimal 4 @ ''KiB'') = Some (Inr 4096) \<and> parse_bytes True (decimal 4 @ ''KB'') = Some (Inr 4)"
proof -
  have low: "to_ascii_lowercase ''KiB'' = ''kib''" "to_ascii_lowercase ''KB'' = ''kb''"
    by (simp_all add: to_ascii_lowercase_def to_ascii_lower_def char_of_def bit_0)
  have units: "(to_ascii_lowercase ''KiB'', 1024) \<in> set byte_units" "(to_ascii_lowercase ''KB'', 1) \<in> set byte_units"
    by (simp_all add: low byte_units_def)
  have "4 \<le> U64_MAX" by (simp add: U64_MAX_def)
  from parse_bytes_units [OF this units(1)] parse_bytes_units [OF this units(2)] show ?thesis
    by (simp add: U64_MAX_def)
qed

lemma rsplit_once_last:
  assumes "c \<notin> set tail"
  shows "rsplit_once c (head @ c # tail) = Some (head, tail)"
proof -
  have "\<forall>x \<in> set (rev tail). x \<noteq> c" using assms by auto
  then have "dropWhile (\<lambda>x. x \<noteq> c) (rev tail @ c # rev head) = c # rev head"
    and "takeWhile (\<lambda>x. x \<noteq> c) (rev tail @ c # rev head) = rev tail"
    by (subst dropWhile_append2, auto, subst takeWhile_append2, auto)
  then show ?thesis by (simp add: rsplit_once_def)
qed

lemma trim_end_matches_replicate:
  assumes "s \<noteq> []" and "last s \<noteq> c"
  shows "trim_end_matches c (s @ replicate k c) = s"
proof -
  have "dropWhile (\<lambda>x. x = c) (replicate k c @ rev s) = rev s"
    using assms by (subst dropWhile_append2) (auto simp: dropWhile_eq_self_iff hd_rev)
  then show ?thesis by (simp add: trim_end_matches_def)
qed

text \<open>
  The shutdown route of the benchmark server is the sibling of the benchmark path: for a path made of a
  parent, a last segment and any number of closing slashes it is the segment \<open>shutdown\<close> under the same parent, so
  that one URL reservation for the parent covers both routes.
\<close>

lemma shutdown_path_sibling:
  assumes "segment \<noteq> []" and "CHR ''/'' \<notin> set segment"
  shows "shutdown_path (parent @ ''/'' @ segment @ replicate k (CHR ''/'')) = parent @ ''/shutdown/''"
proof -
  have "last (parent @ ''/'' @ segment) \<noteq> CHR ''/''"
    using assms(1) last_in_set [OF assms(1)] assms(2) by (metis append_is_Nil_conv last_appendR)
  from trim_end_matches_replicate [OF _ this, of k]
  have "trim_end_matches (CHR ''/'') (parent @ ''/'' @ segment @ replicate k (CHR ''/'')) = parent @ CHR ''/'' # segment"
    by simp
  then show ?thesis by (simp add: shutdown_path_def rsplit_once_last [OF assms(2)])
qed

end
