(* ===== verification/Bench_Load.thy ===== *)
theory Bench_Load
  imports Bench_Float Httpsys_Error "HOL-Library.Multiset"
begin

text \<open>
  The closed-loop load generator (\<open>tools/httpbench/src/load.rs\<close>).

  The HTTP client (hyper on tokio), the TCP stack and the clock are parameters: \<open>net\<close> is a record of
  operations on an environment state, each with the error text it may fail with.  A loop that waits for the clock
  is a \<open>partial_function\<close>, so that never returning is a value; under a clock that moves with every
  exchange it is proved to return.  Connections run as independent tasks: \<open>run\<close> sees of each only
  what its \<open>JoinHandle\<close> yields.
\<close>

section \<open>The specification of a run\<close>

record LoadSpec =
  ls_host :: string
  ls_port :: u16
  ls_path :: string
  ls_body :: "u8 list"
  ls_connections :: nat
  ls_duration :: Duration

definition authority :: "LoadSpec \<Rightarrow> string" where
  "authority spec = ls_host spec @ '':'' @ decimal (unat (ls_port spec))"

section \<open>Results\<close>

record LoadResult =
  lr_elapsed :: Duration
  lr_errors :: nat
  lr_latencies_ns :: "nat list"

definition load_result_default :: LoadResult where
  "load_result_default = \<lparr>lr_elapsed = 0, lr_errors = 0, lr_latencies_ns = []\<rparr>"

definition requests :: "LoadResult \<Rightarrow> nat" where
  "requests r = length (lr_latencies_ns r)"

definition requests_per_second :: "float_env \<Rightarrow> LoadResult \<Rightarrow> f64" where
  "requests_per_second F r =
     (let seconds = fp_as_secs F (lr_elapsed r) in
      if f_ge f_0 seconds then f_0 else fp_div F (fp_of_nat F (requests r)) seconds)"

definition percentile_ms :: "float_env \<Rightarrow> LoadResult \<Rightarrow> f64 \<Rightarrow> f64" where
  "percentile_ms F r quantile =
     (let ns = lr_latencies_ns r in
      if ns = [] then f_0
      else let last = length ns - 1;
               index = min (fp_to_usize F (fp_mul F (fp_of_nat F (length ns)) quantile)) last
           in fp_div F (fp_of_nat F (ns ! index)) f_1e6)"

definition mean_ms :: "float_env \<Rightarrow> LoadResult \<Rightarrow> f64" where
  "mean_ms F r =
     (let ns = lr_latencies_ns r in
      if ns = [] then f_0
      else fp_div F (fp_div F (fp_of_nat F (sum_list ns)) (fp_of_nat F (length ns))) f_1e6)"

section \<open>The client\<close>

datatype hyper_method = GET | POST

record hyper_request =
  hr_method :: hyper_method
  hr_uri :: string
  hr_host :: string
  hr_body :: "u8 list"

type_synonym 'a bench_result = "string + 'a"

record 'n net =
  tcp_connect :: "string \<Rightarrow> 'n \<Rightarrow> unit bench_result \<times> 'n"
  set_nodelay :: "'n \<Rightarrow> unit bench_result \<times> 'n"
  handshake :: "'n \<Rightarrow> unit bench_result \<times> 'n"
  build_request :: "hyper_request \<Rightarrow> string option"
  send_request :: "hyper_request \<Rightarrow> 'n \<Rightarrow> nat bench_result \<times> 'n"
  collect_body :: "'n \<Rightarrow> unit bench_result \<times> 'n"
  close_connection :: "'n \<Rightarrow> 'n"
  now :: "'n \<Rightarrow> nat \<times> 'n"
  sleep_ms :: "nat \<Rightarrow> 'n \<Rightarrow> 'n"
  status_text :: "nat \<Rightarrow> string"

definition io_bind :: "'a bench_result \<times> 'n \<Rightarrow> ('a \<Rightarrow> 'n \<Rightarrow> 'b bench_result \<times> 'n) \<Rightarrow> 'b bench_result \<times> 'n" where
  "io_bind m f = (case m of (Inl e, n) \<Rightarrow> (Inl e, n) | (Inr x, n) \<Rightarrow> f x n)"

definition is_success :: "nat \<Rightarrow> bool" where
  "is_success status \<longleftrightarrow> 200 \<le> status \<and> status < 300"

text \<open>Send, take the status, drain the body.\<close>

definition exchange :: "'n net \<Rightarrow> hyper_request \<Rightarrow> 'n \<Rightarrow> nat bench_result \<times> 'n" where
  "exchange N request n =
     io_bind (send_request N request n) (\<lambda>status n.
     io_bind (collect_body N n) (\<lambda>_ n. (Inr status, n)))"

text \<open>The \<open>while\<close> loop of \<open>connection_loop\<close>; \<open>None\<close> is a loop that never ends.\<close>

partial_function (option) request_loop ::
  "'n net \<Rightarrow> hyper_request \<Rightarrow> nat \<Rightarrow> nat list \<Rightarrow> 'n \<Rightarrow> (nat list bench_result \<times> 'n) option"
where [code]:
  "request_loop N request deadline latencies n =
     (case now N n of (t, n) \<Rightarrow>
        if \<not> t < deadline then Some (Inr latencies, n)
        else case build_request N request of
          Some e \<Rightarrow> Some (Inl e, n)
        | None \<Rightarrow>
            (case now N n of (sent, n) \<Rightarrow>
               (case exchange N request n of
                  (Inl e, n) \<Rightarrow> Some (Inl e, n)
                | (Inr status, n) \<Rightarrow>
                    if \<not> is_success status then Some (Inl (''server replied '' @ status_text N status), n)
                    else case now N n of (t, n) \<Rightarrow>
                      request_loop N request deadline (latencies @ [(t - sent) mod 2 ^ 64]) n)))"

definition load_request :: "LoadSpec \<Rightarrow> hyper_request" where
  "load_request spec =
     \<lparr>hr_method = (if ls_body spec = [] then GET else POST), hr_uri = ls_path spec,
      hr_host = authority spec, hr_body = ls_body spec\<rparr>"

definition connection_loop :: "'n net \<Rightarrow> LoadSpec \<Rightarrow> nat \<Rightarrow> 'n \<Rightarrow> (nat list bench_result \<times> 'n) option" where
  "connection_loop N spec deadline n =
     (case io_bind (tcp_connect N (authority spec) n) (\<lambda>_ n.
           io_bind (set_nodelay N n) (\<lambda>_ n. handshake N n)) of
        (Inl e, n) \<Rightarrow> Some (Inl e, n)
      | (Inr _, n) \<Rightarrow>
          (case request_loop N (load_request spec) deadline [] n of
             None \<Rightarrow> None
           | Some (Inl e, n) \<Rightarrow> Some (Inl e, n)
           | Some (Inr latencies, n) \<Rightarrow> Some (Inr latencies, close_connection N n)))"

text \<open>What the handle of a spawned connection yields: the value of \<open>connection_loop\<close>, or a panic.\<close>

datatype join_outcome = Joined_Ok "nat list" | Joined_Err string | Join_Panicked string

fun outcome_of :: "nat list bench_result \<Rightarrow> join_outcome" where
  "outcome_of (Inl e) = Joined_Err e"
| "outcome_of (Inr samples) = Joined_Ok samples"

fun merge_connection :: "join_outcome \<Rightarrow> LoadResult \<Rightarrow> LoadResult" where
  "merge_connection (Joined_Ok samples) r = r\<lparr>lr_latencies_ns := lr_latencies_ns r @ samples\<rparr>"
| "merge_connection (Joined_Err e) r = r\<lparr>lr_errors := lr_errors r + 1\<rparr>"
| "merge_connection (Join_Panicked e) r = r\<lparr>lr_errors := lr_errors r + 1\<rparr>"

definition load_run :: "LoadSpec \<Rightarrow> (nat \<Rightarrow> join_outcome) \<Rightarrow> Duration \<Rightarrow> LoadResult" where
  "load_run spec join elapsed =
     (let r = fold merge_connection (map join [0..<max (ls_connections spec) 1]) load_result_default
      in r\<lparr>lr_elapsed := elapsed, lr_latencies_ns := sort (lr_latencies_ns r)\<rparr>)"

section \<open>Probes\<close>

definition single_request :: "'n net \<Rightarrow> LoadSpec \<Rightarrow> 'n \<Rightarrow> unit bench_result \<times> 'n" where
  "single_request N spec n =
     io_bind (tcp_connect N (authority spec) n) (\<lambda>_ n.
     io_bind (handshake N n) (\<lambda>_ n.
       let request = \<lparr>hr_method = GET, hr_uri = ls_path spec, hr_host = authority spec, hr_body = []\<rparr> in
       case build_request N request of
         Some e \<Rightarrow> (Inl e, n)
       | None \<Rightarrow>
           io_bind (exchange N request n) (\<lambda>status n.
             let n = close_connection N n in
             if is_success status then (Inr (), n)
             else (Inl (''readiness probe got '' @ status_text N status), n))))"

partial_function (option) probe_loop ::
  "'n net \<Rightarrow> LoadSpec \<Rightarrow> nat \<Rightarrow> string option \<Rightarrow> 'n \<Rightarrow> (unit bench_result \<times> 'n) option"
where [code]:
  "probe_loop N probe deadline last_error n =
     (case now N n of (t, n) \<Rightarrow>
        if \<not> t < deadline then
          Some (Inl (''server on port '' @ decimal (unat (ls_port probe)) @ '' did not become ready: '' @
                     (case last_error of Some e \<Rightarrow> e | None \<Rightarrow> ''no response'')), n)
        else (case single_request N probe n of
                (Inr _, n) \<Rightarrow> Some (Inr (), n)
              | (Inl e, n) \<Rightarrow> probe_loop N probe deadline (Some e) (sleep_ms N 25 n)))"

definition wait_until_ready :: "'n net \<Rightarrow> LoadSpec \<Rightarrow> Duration \<Rightarrow> 'n \<Rightarrow> (unit bench_result \<times> 'n) option" where
  "wait_until_ready N spec timeout n =
     (case now N n of (t, n) \<Rightarrow>
        probe_loop N (spec\<lparr>ls_connections := 1, ls_duration := 0, ls_body := []\<rparr>) (t + timeout) None n)"

section \<open>Merging\<close>

fun samples_of :: "join_outcome \<Rightarrow> nat list" where
  "samples_of (Joined_Ok samples) = samples"
| "samples_of _ = []"

fun is_failure :: "join_outcome \<Rightarrow> bool" where
  "is_failure (Joined_Ok samples) = False"
| "is_failure _ = True"

lemma merge_connection_fields:
  "lr_latencies_ns (merge_connection j r) = lr_latencies_ns r @ samples_of j"
  "lr_errors (merge_connection j r) = lr_errors r + (if is_failure j then 1 else 0)"
  by (cases j; simp)+

lemma fold_merge:
  "lr_latencies_ns (fold merge_connection js r) = lr_latencies_ns r @ concat (map samples_of js)"
  "lr_errors (fold merge_connection js r) = lr_errors r + length (filter is_failure js)"
  by (induction js arbitrary: r) (simp_all add: merge_connection_fields)

section \<open>The loops return\<close>

text \<open>
  A clock for the loops: time never runs backwards, an exchange and a sleep take some of it.  \<open>T\<close> is the
  time of an environment state.
\<close>

definition clock_ok :: "'n net \<Rightarrow> ('n \<Rightarrow> nat) \<Rightarrow> bool" where
  "clock_ok N T \<longleftrightarrow>
     (\<forall>n. T n \<le> fst (now N n) \<and> fst (now N n) \<le> T (snd (now N n))) \<and>
     (\<forall>request n. T n < T (snd (exchange N request n))) \<and>
     (\<forall>spec n. T n \<le> T (snd (single_request N spec n))) \<and>
     (\<forall>n. T n < T (sleep_ms N 25 n))"

lemma clock_okD:
  assumes "clock_ok N T"
  shows "now N n = (t, n') \<Longrightarrow> T n \<le> t \<and> t \<le> T n'"
    and "exchange N request n = (x, n') \<Longrightarrow> T n < T n'"
    and "single_request N spec n = (y, n') \<Longrightarrow> T n \<le> T n'"
    and "T n < T (sleep_ms N 25 n)"
  using assms unfolding clock_ok_def by (metis fst_conv snd_conv)+

text \<open>What a finished loop leaves: samples that fit the \<open>u64\<close> they are stored in, and a deadline in the past.\<close>

definition loop_result :: "('n \<Rightarrow> nat) \<Rightarrow> nat \<Rightarrow> nat list \<Rightarrow> nat list bench_result \<Rightarrow> 'n \<Rightarrow> bool" where
  "loop_result T deadline ls r n \<longleftrightarrow>
     (\<forall>all. r = Inr all \<longrightarrow> (\<exists>more. all = ls @ more \<and> (\<forall>x \<in> set more. x < 2 ^ 64) \<and> deadline \<le> T n))"

lemma loop_result_step: "loop_result T deadline (ls @ [x]) r n \<Longrightarrow> x < 2 ^ 64 \<Longrightarrow> loop_result T deadline ls r n"
  by (fastforce simp: loop_result_def)

lemma request_loop_returns:
  assumes clock: "clock_ok N T"
  shows "\<exists>r n'. request_loop N request deadline ls n = Some (r, n') \<and> loop_result T deadline ls r n'"
proof (induction "deadline - T n" arbitrary: n ls rule: less_induct)
  case less
  note step = request_loop.simps [of N request deadline ls n]
  obtain t n1 where n1: "now N n = (t, n1)" by fastforce
  have t: "T n \<le> t" "t \<le> T n1" using clock_okD(1) [OF clock n1] by auto
  obtain sent n2 where n2: "now N n1 = (sent, n2)" by fastforce
  obtain x n3 where n3: "exchange N request n2 = (x, n3)" by fastforce
  obtain t4 n4 where n4: "now N n3 = (t4, n4)" by fastforce
  have later: "T n < T n4"
    using t clock_okD(1) [OF clock n2] clock_okD(2) [OF clock n3] clock_okD(1) [OF clock n4] by linarith
  show ?case
  proof (cases "t < deadline \<and> build_request N request = None \<and> (\<exists>status. x = Inr status \<and> is_success status)")
    case False
    then show ?thesis using t by (cases x) (auto simp: step n1 n2 n3 loop_result_def split: option.splits)
  next
    case True
    let ?ls = "ls @ [(t4 - sent) mod 2 ^ 64]"
    from True t later have "deadline - T n4 < deadline - T n" by linarith
    from less [OF this, of ?ls] obtain r n' where "request_loop N request deadline ?ls n4 = Some (r, n')"
      and "loop_result T deadline ?ls r n'" by blast
    moreover have "request_loop N request deadline ls n = request_loop N request deadline ?ls n4"
      using True by (auto simp: step n1 n2 n3 n4)
    ultimately show ?thesis using loop_result_step by fastforce
  qed
qed

lemma probe_loop_returns:
  assumes clock: "clock_ok N T"
  shows "\<exists>r n'. probe_loop N probe deadline last_error n = Some (r, n') \<and> (r = Inr () \<or> deadline \<le> T n')"
proof (induction "deadline - T n" arbitrary: n last_error rule: less_induct)
  case less
  note step = probe_loop.simps [of N probe deadline last_error n]
  obtain t n1 where n1: "now N n = (t, n1)" by fastforce
  have t: "T n \<le> t" "t \<le> T n1" using clock_okD(1) [OF clock n1] by auto
  obtain x n2 where n2: "single_request N probe n1 = (x, n2)" by fastforce
  show ?case
  proof (cases "t < deadline \<and> isl x")
    case False
    then show ?thesis using t n2 by (cases x) (auto simp: step n1)
  next
    case True
    then obtain e where x: "x = Inl e" by (cases x) auto
    have "T n < T (sleep_ms N 25 n2)"
      using t clock_okD(3) [OF clock n2] clock_okD(4) [OF clock, of n2] by linarith
    with True t have "deadline - T (sleep_ms N 25 n2) < deadline - T n" by linarith
    from less [OF this, of "Some e"] show ?thesis using True by (simp add: step n1 n2 x)
  qed
qed

section \<open>Properties\<close>

text \<open>
  The result of a load run is the merge of its connections.  Whatever the spawned connections end with, the
  latencies are sorted and are exactly the samples of the connections that succeeded, the error count is the number of
  connections that failed or panicked, at least one connection is started, and every percentile, for any rounding and
  any quantile, NaN and infinities included, is the latency of one of the samples (zero when there is none), never
  a read off the end.
\<close>

lemma load_run_reports:
  "let js = map join [0..<max (ls_connections spec) 1]; r = load_run spec join elapsed in
   js \<noteq> [] \<and> sorted (lr_latencies_ns r) \<and>
   mset (lr_latencies_ns r) = (\<Sum>j \<in># mset js. mset (samples_of j)) \<and>
   lr_errors r = length (filter is_failure js) \<and> lr_elapsed r = elapsed \<and>
   percentile_ms F r q \<in> (if lr_latencies_ns r = [] then {f_0}
                           else (\<lambda>ns. fp_div F (fp_of_nat F ns) f_1e6) ` set (lr_latencies_ns r))"
proof -
  define js where "js = map join [0..<max (ls_connections spec) 1]"
  define r where "r = load_run spec join elapsed"
  have ns: "lr_latencies_ns r = sort (concat (map samples_of js))" and er: "lr_errors r = length (filter is_failure js)"
    and el: "lr_elapsed r = elapsed"
    unfolding r_def load_run_def Let_def js_def [symmetric] by (simp_all add: fold_merge load_result_default_def)
  have "mset (concat (map samples_of js)) = (\<Sum>j \<in># mset js. mset (samples_of j))"
    by (induction js) simp_all
  moreover have "percentile_ms F r q \<in> (\<lambda>ns. fp_div F (fp_of_nat F ns) f_1e6) ` set (lr_latencies_ns r)"
    if "lr_latencies_ns r \<noteq> []"
    using that by (auto simp: percentile_ms_def Let_def intro!: imageI nth_mem min.strict_coboundedI2)
  moreover have "percentile_ms F r q = f_0" if "lr_latencies_ns r = []"
    using that by (simp add: percentile_ms_def)
  moreover have "js \<noteq> []" by (simp add: js_def)
  ultimately show ?thesis unfolding Let_def js_def [symmetric] r_def [symmetric] by (simp add: ns er el)
qed

text \<open>An environment whose state is the time; every exchange takes a tick and succeeds.\<close>

definition tick_net :: "nat net" where
  "tick_net = \<lparr>tcp_connect = (\<lambda>_ n. (Inr (), n)), set_nodelay = (\<lambda>n. (Inr (), n)), handshake = (\<lambda>n. (Inr (), n)),
     build_request = (\<lambda>_. None), send_request = (\<lambda>_ n. (Inr 200, n + 1)), collect_body = (\<lambda>n. (Inr (), n)),
     close_connection = (\<lambda>n. n), now = (\<lambda>n. (n, n)), sleep_ms = (\<lambda>k n. n + k), status_text = decimal\<rparr>"

lemma tick_net_ok: "clock_ok tick_net (\<lambda>n. n)"
  by (simp add: clock_ok_def tick_net_def exchange_def single_request_def io_bind_def is_success_def Let_def)



end
