(* ===== verification/Bench_Cpu.thy ===== *)
theory Bench_Cpu
  imports Bench_Float Bench_Load
begin

text \<open>
  CPU accounting of a server process (\<open>tools/httpbench/src/cpu.rs\<close>), and the operating system the sweep
  talks to: \<open>os\<close> is the record of process operations, a parameter over the environment state that the network
  record \<open>net\<close> also works on.  A fallible computation on that state may also never return, which is \<open>None\<close>.
\<close>

section \<open>Computations\<close>

type_synonym ('n, 'a) io = "'n \<Rightarrow> ('a bench_result \<times> 'n) option"

definition io_return :: "'a \<Rightarrow> ('n, 'a) io" where
  "io_return x n = Some (Inr x, n)"

definition io_fail :: "string \<Rightarrow> ('n, 'a) io" where
  "io_fail e n = Some (Inl e, n)"

definition io_try :: "('n, 'a) io \<Rightarrow> ('a \<Rightarrow> ('n, 'b) io) \<Rightarrow> ('n, 'b) io" where
  "io_try m f n =
     (case m n of None \<Rightarrow> None | Some (Inl e, n) \<Rightarrow> Some (Inl e, n) | Some (Inr x, n) \<Rightarrow> f x n)"

definition io_lift :: "('n \<Rightarrow> 'a bench_result \<times> 'n) \<Rightarrow> ('n, 'a) io" where
  "io_lift m n = Some (m n)"

text \<open>A local with a destructor, left early through \<open>?\<close>.\<close>

definition io_on_error :: "('n \<Rightarrow> 'n) \<Rightarrow> ('n, 'a) io \<Rightarrow> ('n, 'a) io" where
  "io_on_error cleanup m n =
     (case m n of None \<Rightarrow> None | Some (Inl e, n) \<Rightarrow> Some (Inl e, cleanup n) | Some (Inr x, n) \<Rightarrow> Some (Inr x, n))"

section \<open>CPU time\<close>

record FILETIME =
  dwLowDateTime :: u32
  dwHighDateTime :: u32

record CpuSnapshot =
  cs_at :: nat
  cs_cpu :: Duration

text \<open>The product with 100 wraps at 64 bits (a debug build panics there instead).\<close>

definition as_duration :: "FILETIME \<Rightarrow> Duration" where
  "as_duration t =
     (let ticks = push_bit 32 (ucast (dwHighDateTime t)) OR ucast (dwLowDateTime t) :: u64
      in unat (ticks * 100))"

definition cpu_between :: "CpuSnapshot \<Rightarrow> CpuSnapshot \<Rightarrow> Duration" where
  "cpu_between start finish = cs_cpu finish - cs_cpu start"

definition cores_between :: "float_env \<Rightarrow> CpuSnapshot \<Rightarrow> CpuSnapshot \<Rightarrow> f64" where
  "cores_between F start finish =
     (let wall = fp_as_secs F (cs_at finish - cs_at start) in
      if f_ge f_0 wall then f_0 else fp_div F (fp_as_secs F (cpu_between start finish)) wall)"

section \<open>The operating system\<close>

record 'n os =
  current_exe :: "'n \<Rightarrow> string bench_result \<times> 'n"
  cmd_spawn :: "string list \<Rightarrow> 'n \<Rightarrow> u32 bench_result \<times> 'n"
  try_wait :: "u32 \<Rightarrow> 'n \<Rightarrow> bool bench_result \<times> 'n"
  child_kill :: "u32 \<Rightarrow> 'n \<Rightarrow> 'n"
  child_wait :: "u32 \<Rightarrow> 'n \<Rightarrow> 'n"
  OpenProcess :: "u32 \<Rightarrow> 'n \<Rightarrow> u64 bench_result \<times> 'n"
  GetProcessTimes :: "u64 \<Rightarrow> 'n \<Rightarrow> (FILETIME \<times> FILETIME) bench_result \<times> 'n"
  CloseProcessHandle :: "u64 \<Rightarrow> 'n \<Rightarrow> 'n"
  run_tasks :: "LoadSpec \<Rightarrow> 'n \<Rightarrow> ((nat \<Rightarrow> join_outcome) \<times> Duration) \<times> 'n"

record ProcessCpu =
  pc_handle :: u64

definition process_cpu_open :: "'n os \<Rightarrow> u32 \<Rightarrow> 'n \<Rightarrow> ProcessCpu bench_result \<times> 'n" where
  "process_cpu_open O' pid n = io_bind (OpenProcess O' pid n) (\<lambda>h n. (Inr \<lparr>pc_handle = h\<rparr>, n))"

definition snapshot :: "'n os \<Rightarrow> 'n net \<Rightarrow> ProcessCpu \<Rightarrow> 'n \<Rightarrow> CpuSnapshot bench_result \<times> 'n" where
  "snapshot O' N p n =
     io_bind (GetProcessTimes O' (pc_handle p) n) (\<lambda>(kernel, user) n.
       case now N n of (t, n) \<Rightarrow> (Inr \<lparr>cs_at = t, cs_cpu = as_duration kernel + as_duration user\<rparr>, n))"

definition process_cpu_drop :: "'n os \<Rightarrow> ProcessCpu \<Rightarrow> 'n \<Rightarrow> 'n" where
  "process_cpu_drop O' p n = CloseProcessHandle O' (pc_handle p) n"

section \<open>Ticks\<close>

text \<open>A \<open>FILETIME\<close> counts 100-nanosecond ticks in two halves; the conversion is exact while the product fits,
  which is more than 584 years.\<close>

lemma as_duration_exact:
  assumes "(unat (dwHighDateTime t) * 2 ^ 32 + unat (dwLowDateTime t)) * 100 < 2 ^ 64"
  shows "as_duration t = (unat (dwHighDateTime t) * 2 ^ 32 + unat (dwLowDateTime t)) * 100"
proof -
  let ?h = "ucast (dwHighDateTime t) :: u64" and ?l = "ucast (dwLowDateTime t) :: u64"
  have low: "i < 32" if "bit ?l i" for i
    using that bit_imp_le_length [of "dwLowDateTime t" i] by (simp add: bit_ucast_iff)
  have "push_bit 32 ?h OR ?l = push_bit 32 ?h + ?l"
    by (rule disjunctive_add [symmetric]) (auto simp: bit_push_bit_iff dest: low)
  also have "\<dots> = of_nat (unat (dwHighDateTime t) * 2 ^ 32 + unat (dwLowDateTime t))"
    by (simp add: push_bit_eq_mult of_nat_unat)
  finally have ticks: "(push_bit 32 ?h OR ?l) * 100 =
      of_nat ((unat (dwHighDateTime t) * 2 ^ 32 + unat (dwLowDateTime t)) * 100)" by simp
  show ?thesis unfolding as_duration_def Let_def ticks unat_of_nat using assms by (intro mod_less) simp
qed

end
