(* ===== verification/Bench_Servers.thy ===== *)
theory Bench_Servers
  imports Httpsys_Server Bench_Fmt Bench_Cpu
begin

text \<open>
  The two benchmark servers (\<open>tools/httpbench/src/servers.rs\<close>).  The one built on the crate is a whole program on top of
  its modelled interface: two handlers, the registration of their routes and the way it is stopped, as actions of the
  step relation of \<open>Httpsys_Server\<close>.  Of the one built on axum the handlers and the stop protocol are modelled, over a
  parameter for the crate.
\<close>

section \<open>Handlers\<close>

record ServeOptions =
  sv_request_buffer_bytes :: nat
  sv_kernel_cache :: bool

definition REPLY :: "u8 list" where
  "REPLY = [79, 75]"

definition REPLY_CONTENT_TYPE :: string where
  "REPLY_CONTENT_TYPE = ''text/plain; charset=utf-8''"

text \<open>The drop of a \<open>Body\<close> hands an owned vector back to its pool.\<close>

definition body_drop :: "Body \<Rightarrow> 'q BodyPool \<Rightarrow> 'q BodyPool" where
  "body_drop b bodies = (case body_owned b of None \<Rightarrow> bodies | Some p \<Rightarrow> pooled_vec_drop p bodies)"

definition bench_response :: "bool \<Rightarrow> Response" where
  "bench_response kernel_cache =
     (let response = with_body REPLY (with_content_type REPLY_CONTENT_TYPE (response_new OK))
      in if kernel_cache then cache_in_kernel_for_secs 60 response else response)"

text \<open>The handler of the benchmark path: read the whole body, let it go, answer.  \<open>None\<close> is a body that never ends.\<close>

definition bench_handler ::
  "'w ov_env \<Rightarrow> 'k http_api \<Rightarrow> RequestQueue \<Rightarrow> ServeOptions \<Rightarrow> Request \<Rightarrow> 'q BodyPool \<Rightarrow> 'k \<Rightarrow>
   (Response \<times> 'q BodyPool \<times> 'k) option" where
  "bench_handler W A q options request bodies k =
     (case body W A q request bodies k of
        None \<Rightarrow> None
      | Some (Inl e, bodies, k) \<Rightarrow> Some (bench_response (sv_kernel_cache options), bodies, k)
      | Some (Inr b, bodies, k) \<Rightarrow> Some (bench_response (sv_kernel_cache options), body_drop b bodies, k))"

text \<open>The handler of the shutdown path: one message to the main thread, one answer.\<close>

definition shutdown_handler :: "nat \<Rightarrow> Response \<times> nat" where
  "shutdown_handler stops = (ok_text REPLY, stops + 1)"

section \<open>Registration\<close>

datatype bench_route = Bench_Route | Shutdown_Route

text \<open>A builder dropped on the way out when a route is refused.\<close>

definition route_or_drop ::
  "kernel \<Rightarrow> (Error \<Rightarrow> string) \<Rightarrow> string \<Rightarrow> 'h \<Rightarrow> 'h ServerBuilder \<Rightarrow> ('h ServerBuilder \<Rightarrow> (string + 'a) ffi) \<Rightarrow> (string + 'a) ffi" where
  "route_or_drop K hint u handler b continue =
     do { (r, b) \<leftarrow> route K u handler b;
          case r of
            Inl e \<Rightarrow> do { x \<leftarrow> server_builder_drop K b; State_Monad.return (Inl (hint e)) }
          | Inr _ \<Rightarrow> continue b }"

definition serve_httpsys_setup ::
  "kernel \<Rightarrow> (u32 \<Rightarrow> string) \<Rightarrow> nat option \<Rightarrow> u16 \<Rightarrow> string \<Rightarrow> ServeOptions \<Rightarrow> (string + bench_route ServerBuilder) ffi" where
  "serve_httpsys_setup K message parallelism tcp_port path options =
     (let hint = (\<lambda>e. url_acl_hint message e tcp_port path);
          base_url = ''http://+:'' @ decimal (unat tcp_port)
      in do { r \<leftarrow> with_config K ((server_config_default parallelism)\<lparr>request_buffer_bytes := sv_request_buffer_bytes options\<rparr>);
              case r of
                Inl e \<Rightarrow> State_Monad.return (Inl (fmt_error message e))
              | Inr builder \<Rightarrow>
                  route_or_drop K hint (base_url @ path) Bench_Route builder (\<lambda>builder.
                  route_or_drop K hint (base_url @ shutdown_path path) Shutdown_Route builder (\<lambda>builder.
                    State_Monad.return (Inr builder))) })"

text \<open>
  \<open>serve_httpsys\<close> as a whole, on the log of kernel calls beside the rest of the world.  \<open>running\<close> is the life of the
  server thread from \<open>run\<close> to the end of \<open>join\<close>, the subject of the step relation: \<open>None\<close> when no shutdown request comes
  or the join hangs.
\<close>

definition serve_httpsys ::
  "kernel \<Rightarrow> (u32 \<Rightarrow> string) \<Rightarrow> nat option \<Rightarrow> (srv \<Rightarrow> 'n \<Rightarrow> 'n option) \<Rightarrow> u16 \<Rightarrow> string \<Rightarrow> ServeOptions \<Rightarrow> (ffi_log \<times> 'n, unit) io" where
  "serve_httpsys K message parallelism running tcp_port path options = (\<lambda>(l, n).
     case run_state (serve_httpsys_setup K message parallelism tcp_port path options) l of
       (Inl e, l) \<Rightarrow> Some (Inl e, l, n)
     | (Inr builder, l) \<Rightarrow>
         (case server_builder_run builder of (server, handles, routes) \<Rightarrow>
            (case running server n of
               None \<Rightarrow> None
             | Some n \<Rightarrow> Some (Inr (), snd (run_state (owned_handles_drop K handles) l), n))))"

section \<open>What a builder holds\<close>

lemma with_config_fields:
  assumes "run_state (with_config K config) l = (Inr b, l')"
  shows "sb_next_id b = 1 \<and> sb_routes b = Map.empty \<and> group_session (sb_group b) = sb_session b \<and> sb_config b = config"
  using assms unfolding with_config_def
  by (auto simp: run_try_bind run_on_error url_group_new_def split: prod.splits sum.splits)

lemma server_builder_drop_live:
  assumes "group_session (sb_group b) = sb_session b"
  shows "live (snd (run_state (server_builder_drop K b) l)) = live l - builder_held b"
proof -
  have "live (snd (run_state (request_queue_drop K (sb_queue b)) k)) = live k - queue_held (sb_queue b)" for k
    by (rule request_queue_drop_live)
  then show ?thesis
    by (simp add: server_builder_drop_def http_initializer_drop_def url_group_drop_def server_session_drop_def
        live_step_def builder_held_def assms diff_diff_add add_mset_commute)
qed

text \<open>One registration: refused, it leaves nothing; accepted, it only adds the route.\<close>

lemma route_live: "live (snd (run_state (route K u h b) l)) = live l"
  by (simp add: run_route Let_def live_step_def)

lemma builder_held_route [simp]:
  "builder_held (b\<lparr>sb_next_id := i\<rparr>) = builder_held b" "builder_held (b\<lparr>sb_routes := m\<rparr>) = builder_held b"
  by (simp_all add: builder_held_def)

lemma run_route_or_drop:
  "run_state (route_or_drop K hint u h b continue) l =
     (let c = HttpAddUrlToUrlGroup (group_id (sb_group b)) (normalize_prefix u) (sb_next_id b);
          b' = b\<lparr>sb_next_id := sb_next_id b + 1\<rparr>; l' = l @ [(c, K l c)] in
      if rc (K l c) = 0 then run_state (continue (b'\<lparr>sb_routes := (sb_routes b)(sb_next_id b \<mapsto> h)\<rparr>)) l'
      else (Inl (hint (Win32 (rc (K l c)))), snd (run_state (server_builder_drop K b') l')))"
  by (simp add: route_or_drop_def run_route Let_def split: prod.split)

lemma serve_httpsys_setup_live:
  assumes run: "run_state (serve_httpsys_setup K message parallelism tcp_port path options) l = (r, l')"
  shows "case r of
      Inr b \<Rightarrow> live l' = builder_held b + live l \<and> sb_routes b = [1 \<mapsto> Bench_Route, 2 \<mapsto> Shutdown_Route]
    | Inl e \<Rightarrow> at_most_queue (live l) (live l')"
proof -
  let ?config = "(server_config_default parallelism)\<lparr>request_buffer_bytes := sv_request_buffer_bytes options\<rparr>"
  obtain c l1 where c: "run_state (with_config K ?config) l = (c :: bench_route ServerBuilder result, l1)" by fastforce
  have acq: "case c of Inr b \<Rightarrow> live l1 = builder_held b + live l | Inl e \<Rightarrow> at_most_queue (live l) (live l1)"
    using acquiresD [OF with_config_acquires c] by (simp cong: sum.case_cong)
  show ?thesis
  proof (cases c)
    case (Inl e)
    then show ?thesis using run acq c by (auto simp: serve_httpsys_setup_def Let_def)
  next
    case (Inr b)
    note f = with_config_fields [OF c [unfolded Inr]]
    show ?thesis using run acq f
      by (auto simp: serve_httpsys_setup_def Let_def c Inr run_route_or_drop live_step_def server_builder_drop_live
          at_most_queue_def
          split: if_splits)
  qed
qed

text \<open>A kernel that accepts every call gets the server up.\<close>

definition succeeds :: "('e + 'a) ffi \<Rightarrow> bool" where
  "succeeds m \<longleftrightarrow> (\<forall>l. \<exists>x l'. run_state m l = (Inr x, l'))"

lemma succeeds_bind:
  assumes "succeeds m" and "\<And>x. succeeds (f (Inr x))"
  shows "succeeds (State_Monad.bind m f)"
  unfolding succeeds_def
proof
  fix l
  obtain x l' where "run_state m l = (Inr x, l')" using assms(1) unfolding succeeds_def by blast
  then show "\<exists>x l'. run_state (State_Monad.bind m f) l = (Inr x, l')" using assms(2) [of x] by (simp add: succeeds_def)
qed

lemma succeeds_intros:
  "succeeds (State_Monad.return (Inr x))"
  "succeeds m \<Longrightarrow> (\<And>x. succeeds (f x)) \<Longrightarrow> succeeds (try_bind m f)"
  "succeeds m \<Longrightarrow> succeeds (on_error d m)"
proof -
  show "succeeds (State_Monad.return (Inr x))" by (simp add: succeeds_def)
  show "succeeds (try_bind m f)" if "succeeds m" "\<And>x. succeeds (f x)"
    unfolding try_bind_def using that by (intro succeeds_bind) simp_all
  show "succeeds (on_error d m)" if "succeeds m"
    unfolding on_error_def using that by (intro succeeds_bind) (simp_all add: succeeds_def)
qed

lemma succeeds_calls:
  assumes "\<And>l c. rc (K l c) = 0"
  shows "succeeds (check_call K c)" "succeeds (hresult_call K c)" "succeeds (spawn_threads K is g)"
proof -
  show "succeeds (check_call K c)" "succeeds (hresult_call K c)" using assms by (simp_all add: succeeds_def ffi_runs)
  show "succeeds (spawn_threads K is g)"
    using assms by (induction "is" arbitrary: g) (simp_all add: succeeds_def)
qed

lemma with_config_succeeds:
  assumes "\<And>l c. rc (K l c) = 0"
  shows "succeeds (with_config K config)"
proof -
  have "succeeds (associate K p h)" for p h
    unfolding associate_def by (intro succeeds_intros succeeds_calls assms) (simp add: succeeds_def)
  then have "succeeds (request_queue_new K n c)" for n c
    unfolding request_queue_new_def io_port_new_def Let_def
    by (intro succeeds_intros succeeds_calls succeeds_bind assms) (simp_all add: succeeds_def)
  then show ?thesis
    unfolding with_config_def http_initializer_new_def server_session_new_def url_group_new_def bind_url_group_def
      bind_to_queue_def set_property_def set_queue_length_def
    by (intro succeeds_intros succeeds_calls assms)
qed

lemma serve_httpsys_setup_succeeds:
  assumes "\<And>l c. rc (K l c) = 0"
  shows "succeeds (serve_httpsys_setup K message parallelism tcp_port path options)"
proof -
  have "succeeds (route_or_drop K hint u h b f)" if "\<And>b. succeeds (f b)"
    for hint u h and b :: "bench_route ServerBuilder" and f :: "bench_route ServerBuilder \<Rightarrow> (string + bench_route ServerBuilder) ffi"
    using that assms by (simp add: succeeds_def run_route_or_drop Let_def)
  then show ?thesis
    unfolding serve_httpsys_setup_def Let_def
    by (intro succeeds_bind with_config_succeeds assms) (simp add: succeeds_intros)
qed

lemma serve_httpsys_live:
  assumes "run_state (serve_httpsys_setup K message parallelism tcp_port path options) l = (Inr b, l')"
    and "running (srv_init (sb_config b)) n = Some n'"
  shows "\<exists>l''. serve_httpsys K message parallelism running tcp_port path options (l, n) = Some (Inr (), l'', n') \<and>
    live l'' = live l"
proof -
  have "live_after (owned_handles_drop K (owned_handles b)) l' = live l"
    using serve_httpsys_setup_live [OF assms(1)] by (simp add: owned_handles_drop_live)
  then show ?thesis using assms by (simp add: serve_httpsys_def server_builder_run_def live_after_def)
qed

lemma body_drop_keeps:
  assumes "body_pool_inv mr bodies"
  shows "body_pool_inv mr (body_drop b bodies)"
  using body_pool_put_keeps [OF assms] assms by (auto simp: body_drop_def split: option.split)

section \<open>The axum server\<close>

text \<open>
  The reference server.  The crate that routes and serves is outside: what it does with the value a handler returns, with
  the listener and with the shutdown future are parameters.  The sender of the stop message sits in an option behind a
  mutex and is taken by the first request of the shutdown path.
\<close>

type_synonym axum_answer = "(string \<times> string) list \<times> u8 list"

record axum_app =
  ax_stop_tx :: bool
  ax_stopped :: bool

definition CONTENT_TYPE :: string where
  "CONTENT_TYPE = ''content-type''"

definition axum_reply :: axum_answer where
  "axum_reply = ([(CONTENT_TYPE, REPLY_CONTENT_TYPE)], REPLY)"

definition axum_bench :: "u8 list \<Rightarrow> axum_answer" where
  "axum_bench content = axum_reply"

definition axum_app_new :: axum_app where
  "axum_app_new = \<lparr>ax_stop_tx = True, ax_stopped = False\<rparr>"

definition axum_shutdown :: "axum_app \<Rightarrow> axum_answer \<times> axum_app" where
  "axum_shutdown app = (axum_reply, if ax_stop_tx app then \<lparr>ax_stop_tx = False, ax_stopped = True\<rparr> else app)"

definition axum_routes :: "string \<Rightarrow> (string \<times> bench_route) list" where
  "axum_routes path = [(path, Bench_Route), (shutdown_path path, Shutdown_Route)]"

record 'n axum_env =
  ax_runtime :: "'n \<Rightarrow> unit bench_result \<times> 'n"
  ax_bind :: "u16 \<Rightarrow> 'n \<Rightarrow> unit bench_result \<times> 'n"
  ax_serve :: "(string \<times> bench_route) list \<Rightarrow> 'n \<Rightarrow> unit bench_result \<times> 'n"

definition serve_axum :: "'n axum_env \<Rightarrow> u16 \<Rightarrow> string \<Rightarrow> ('n, unit) io" where
  "serve_axum X tcp_port path = io_try (io_lift (ax_bind X tcp_port)) (\<lambda>_. io_lift (ax_serve X (axum_routes path)))"

fun serve ::
  "kernel \<Rightarrow> (u32 \<Rightarrow> string) \<Rightarrow> nat option \<Rightarrow> (srv \<Rightarrow> 'n \<Rightarrow> 'n option) \<Rightarrow> (ffi_log \<times> 'n) axum_env \<Rightarrow>
   Engine \<Rightarrow> u16 \<Rightarrow> string \<Rightarrow> ServeOptions \<Rightarrow> (ffi_log \<times> 'n, unit) io" where
  "serve K message parallelism running X Engine_Httpsys tcp_port path options =
     serve_httpsys K message parallelism running tcp_port path options"
| "serve K message parallelism running X Engine_Axum tcp_port path options =
     io_try (io_lift (ax_runtime X)) (\<lambda>_. serve_axum X tcp_port path)"

text \<open>What the main thread of \<open>serve_httpsys\<close> does with its server once a stop message arrived, the drop of the server
  at the end included; the join in between waits.\<close>

definition serve_httpsys_stop :: "srv_action list \<Rightarrow> srv_action list" where
  "serve_httpsys_stop meanwhile = [Shutdown, StartJoin] @ meanwhile @ [JoinServer] @ srv_drop"

text \<open>Both servers are told to stop by the first request of the shutdown path, and by no other request.\<close>

fun shutdown_requests :: "nat \<Rightarrow> nat \<times> axum_app" where
  "shutdown_requests 0 = (0, axum_app_new)"
| "shutdown_requests (Suc n) =
     (case shutdown_requests n of (stops, app) \<Rightarrow> (snd (shutdown_handler stops), snd (axum_shutdown app)))"

lemma shutdown_requests_stop:
  "shutdown_requests n = (n, if n = 0 then axum_app_new else \<lparr>ax_stop_tx = False, ax_stopped = True\<rparr>)"
  by (induction n) (auto simp: shutdown_handler_def axum_shutdown_def axum_app_new_def)

text \<open>A benchmark server that serves can be stopped: the main thread comes out of \<open>join\<close> and of the drop after it.\<close>

lemma serve_httpsys_stops:
  assumes "srv_reachable config s" and "pc s = Receiving" and "owner_pc s = Owning"
  shows "\<exists>meanwhile t. srv_run (serve_httpsys_stop meanwhile) s = Some t \<and> pc t = Served \<and> slots t = 0 \<and> owner_pc t = Joined"
proof -
  let ?s = "s\<lparr>messages := Suc (messages s), owner_pc := JoiningServer\<rparr>"
  have inv: "srv_inv s" using srv_inv_reachable [OF assms(1)] .
  then have "subscribed s" using assms(2) by (simp add: srv_inv_def)
  then have start: "srv_run [Shutdown, StartJoin] s = Some ?s" using assms(3) by simp
  have "srv_inv ?s" using srv_inv_reachable [OF srv_run_reachable [OF assms(1) start]] .
  from srv_runs_to_end [OF this] assms(2) obtain as t where
    t: "srv_run as ?s = Some t" "pc t = Served" "owner_pc t = JoiningServer" "srv_inv t" by auto
  have "slots t = 0" "subscribed t" using t(2,4) by (simp_all add: srv_inv_def)
  then have "srv_run ([JoinServer] @ srv_drop) t = Some (t\<lparr>owner_pc := Joined, messages := Suc (messages t)\<rparr>)"
    using t(2,3) by (simp add: srv_drop_def)
  then have "srv_run (serve_httpsys_stop as) s = Some (t\<lparr>owner_pc := Joined, messages := Suc (messages t)\<rparr>)"
    unfolding serve_httpsys_stop_def srv_run_append [of "[Shutdown, StartJoin]"] start
    by (simp add: srv_run_append t(1) del: srv_run.simps)
  with t(2) \<open>slots t = 0\<close> show ?thesis by fastforce
qed

end
