(* ===== verification/Httpsys_Slots.thy ===== *)
theory Httpsys_Slots
  imports Httpsys_Server
begin

text \<open>
  All the slots of a server at once (\<open>serve\<close> and \<open>slot_loop\<close> of \<open>server.rs\<close>).  The body of the loop is cut at its calls: every call
  of http.sys and every handler is one step, and the steps of the slots, of the server thread and of its owner
  interleave in any order over one world.  Run alone, the steps of a slot are \<open>slot_turn\<close>; seen from the server thread, the
  slots are a number that falls, the abstract server of \<open>Httpsys_Server\<close>; and under the contract
  \<open>slot_service\<close> every slot keeps serving whatever the others do.
\<close>

section \<open>The steps of a slot\<close>

datatype phase =
    Idle
  | Posting RequestBuffer
  | Refetching RequestBuffer u32
  | Received "unit result" RequestBuffer
  | Replying u64 Response "RequestBuffer option"
  | Ended
  | Died

record 'q slot_local =
  lc_pool :: "'q BufferPool"
  lc_mode :: ReceiveMode
  lc_phase :: phase

fun in_loop :: "phase \<Rightarrow> bool" where
  "in_loop Ended = False"
| "in_loop Died = False"
| "in_loop _ = True"

text \<open>A local that goes out of scope takes its buffer back to the pool.\<close>

definition leave :: "RequestBuffer option \<Rightarrow> phase \<Rightarrow> 'q slot_local \<Rightarrow> 'q slot_local" where
  "leave held ph l = l\<lparr>lc_pool := pooled_buffer_drop \<lparr>pb_buffer = held\<rparr> (lc_pool l), lc_phase := ph\<rparr>"

fun held_buffer :: "phase \<Rightarrow> RequestBuffer option" where
  "held_buffer (Posting b) = Some b"
| "held_buffer (Refetching b needed) = Some b"
| "held_buffer (Received r b) = Some b"
| "held_buffer (Replying i response held) = held"
| "held_buffer _ = None"

definition slot_step ::
  "'w ov_env \<Rightarrow> 'k http_api \<Rightarrow> RequestQueue \<Rightarrow> nat \<Rightarrow> (u64 \<rightharpoonup> 'k handler) \<Rightarrow> bool \<Rightarrow> 'q slot_local \<Rightarrow> 'k \<Rightarrow>
   ('q slot_local \<times> 'k \<times> (u64 \<times> Response) list) option" where
  "slot_step W A q sz routes stop l k =
     (case lc_phase l of
        Idle \<Rightarrow>
          if stop then Some (l\<lparr>lc_phase := Ended\<rparr>, k, [])
          else (case buffer_pool_take sz (lc_pool l) of (p, pool) \<Rightarrow>
                  (case pooled_deref p of
                     None \<Rightarrow> Some (l\<lparr>lc_phase := Died\<rparr>, k, [])
                   | Some b \<Rightarrow> Some (l\<lparr>lc_pool := pool, lc_phase := Posting b\<rparr>, k, [])))
      | Posting b \<Rightarrow>
          if copy_body (lc_mode l) then
            (case receive_once W A q b 0 True 0 k of (r, b, needed, k) \<Rightarrow>
               if r = Inl (Win32 ERROR_MORE_DATA) then
                 Some (l\<lparr>lc_mode := (lc_mode l)\<lparr>copy_body := False\<rparr>, lc_phase := Refetching b needed\<rparr>, k, [])
               else Some (l\<lparr>lc_phase := Received r b\<rparr>, k, []))
          else (case receive_headers W A q sz (bp_max_bytes (lc_pool l)) b (lc_mode l) 0 0 k of (r, b, mode, k) \<Rightarrow>
                  Some (l\<lparr>lc_mode := mode, lc_phase := Received r b\<rparr>, k, []))
      | Refetching b needed \<Rightarrow>
          (case receive_headers W A q sz (bp_max_bytes (lc_pool l)) b (lc_mode l) (buffer_request_id b) needed k of
             (r, b, mode, k) \<Rightarrow> Some (l\<lparr>lc_mode := mode, lc_phase := Received r b\<rparr>, k, []))
      | Received r b \<Rightarrow>
          (case r of
             Inr u \<Rightarrow>
               (let i = buffer_request_id b; request = \<lparr>req_buffer = b\<rparr> in
                case (case routes (url_context request) of
                        Some h \<Rightarrow> h request k
                      | None \<Rightarrow> Some (response_new NOT_FOUND, k)) of
                  None \<Rightarrow> Some (leave (Some b) Died l, k, [])
                | Some (response, k) \<Rightarrow> Some (leave (Some b) (Replying i response None) l, k, []))
           | Inl (HeadersTooLarge needed) \<Rightarrow>
               if buffer_request_id b \<noteq> 0 then
                 Some (l\<lparr>lc_phase := Replying (buffer_request_id b) (response_new HEADERS_TOO_LARGE) (Some b)\<rparr>, k, [])
               else Some (leave (Some b) Idle l, k, [])
           | Inl e \<Rightarrow> Some (leave (Some b) (if is_terminal e then Ended else Idle) l, k, []))
      | Replying i response held \<Rightarrow>
          Some (leave held Idle l, snd (send_response W A q i response k), [(i, response)])
      | Ended \<Rightarrow> None
      | Died \<Rightarrow> None)"

text \<open>A slot on its own, for some steps.\<close>

fun slot_steps ::
  "nat \<Rightarrow> 'w ov_env \<Rightarrow> 'k http_api \<Rightarrow> RequestQueue \<Rightarrow> nat \<Rightarrow> (u64 \<rightharpoonup> 'k handler) \<Rightarrow> bool \<Rightarrow> 'q slot_local \<Rightarrow> 'k \<Rightarrow>
   ('q slot_local \<times> 'k \<times> (u64 \<times> Response) list) option" where
  "slot_steps 0 W A q sz routes stop l k = Some (l, k, [])"
| "slot_steps (Suc n) W A q sz routes stop l k =
     (case slot_step W A q sz routes stop l k of
        None \<Rightarrow> None
      | Some (l, k, said) \<Rightarrow>
          (case slot_steps n W A q sz routes stop l k of
             None \<Rightarrow> None
           | Some (l, k, said') \<Rightarrow> Some (l, k, said @ said')))"

section \<open>A slot alone\<close>

definition local_of :: "phase \<Rightarrow> ('q, 'k) slot \<Rightarrow> 'q slot_local" where
  "local_of ph s = \<lparr>lc_pool = sl_pool s, lc_mode = sl_mode s, lc_phase = ph\<rparr>"

fun turn_phase :: "'a turn \<Rightarrow> phase" where
  "turn_phase (Continue t) = Idle"
| "turn_phase (Return t) = Ended"
| "turn_phase (Lost t) = Died"

fun turn_state :: "'a turn \<Rightarrow> 'a" where
  "turn_state (Continue t) = t"
| "turn_state (Return t) = t"
| "turn_state (Lost t) = t"

lemma slot_steps_Suc:
  "slot_step W A q sz routes stop l k = Some (l', k', []) \<Longrightarrow>
     slot_steps (Suc n) W A q sz routes stop l k = slot_steps n W A q sz routes stop l' k'"
  by (auto split: option.split)

text \<open>From the result of the receive to the end of the turn.\<close>

lemma finish_steps:
  assumes "slot_finish W A q routes r b (s\<lparr>sl_pool := pooled_buffer_drop \<lparr>pb_buffer = Some b\<rparr> pool, sl_mode := mode, sl_kernel := k\<rparr>) = x"
  shows "\<exists>n said. slot_steps n W A q sz routes False \<lparr>lc_pool = pool, lc_mode = mode, lc_phase = Received r b\<rparr> k =
      Some (local_of (turn_phase x) (turn_state x), sl_kernel (turn_state x), said) \<and>
    sl_sent (turn_state x) = sl_sent s @ said"
proof -
  let ?steps = "\<lambda>n. slot_steps n W A q sz routes False \<lparr>lc_pool = pool, lc_mode = mode, lc_phase = Received r b\<rparr> k"
  let ?goal = "\<lambda>n. \<exists>said. ?steps n = Some (local_of (turn_phase x) (turn_state x), sl_kernel (turn_state x), said) \<and>
    sl_sent (turn_state x) = sl_sent s @ said"
  note unfolds = slot_finish_def slot_step_def reply_def Let_def leave_def local_of_def pooled_buffer_drop_def
  have "?goal (Suc 0) \<or> ?goal (Suc (Suc 0))"
  proof (cases r)
    case (Inr u)
    then show ?thesis using assms by (auto simp: unfolds split: option.splits)
  next
    case (Inl e)
    then show ?thesis using assms by (cases e) (auto simp: unfolds split: if_splits)
  qed
  then show ?thesis by blast
qed

section \<open>The server\<close>

text \<open>The server thread and its owner as in \<open>Httpsys_Server\<close>, with the slots themselves in place of their number.\<close>

record ('q, 'k) serving =
  sv_srv :: srv
  sv_slots :: "'q slot_local list"
  sv_world :: 'k
  sv_sent :: "(nat \<times> u64 \<times> Response) list"

datatype serve_action = Thread srv_action | Slot nat | Abort nat

definition slot_new :: "(nat \<Rightarrow> (RequestBuffer, 'q) array_queue) \<Rightarrow> ServerConfig \<Rightarrow> 'q slot_local" where
  "slot_new new_queue config =
     \<lparr>lc_pool = buffer_pool_new new_queue 1 (request_buffer_bytes config) (max_request_buffer_bytes config),
      lc_mode = receive_mode_default, lc_phase = Idle\<rparr>"

text \<open>A slot that is over leaves the task set.\<close>

definition put_slot :: "nat \<Rightarrow> 'q slot_local \<Rightarrow> ('q, 'k) serving \<Rightarrow> ('q, 'k) serving" where
  "put_slot i l s =
     s\<lparr>sv_slots := (sv_slots s)[i := l],
       sv_srv := (if in_loop (lc_phase l) then sv_srv s else (sv_srv s)\<lparr>slots := slots (sv_srv s) - 1\<rparr>)\<rparr>"

fun serve_act ::
  "'w ov_env \<Rightarrow> 'k http_api \<Rightarrow> RequestQueue \<Rightarrow> nat \<Rightarrow> (u64 \<rightharpoonup> 'k handler) \<Rightarrow> 'q slot_local \<Rightarrow> serve_action \<Rightarrow>
   ('q, 'k) serving \<Rightarrow> ('q, 'k) serving option" where
  "serve_act W A q sz routes new (Thread a) s =
     (if a = SlotEnds \<or> a = SlotDies then None
      else case srv_act a (sv_srv s) of
        None \<Rightarrow> None
      | Some t \<Rightarrow> Some (s\<lparr>sv_srv := t, sv_slots := (if slots (sv_srv s) < slots t then sv_slots s @ [new] else sv_slots s)\<rparr>))"
| "serve_act W A q sz routes new (Slot i) s =
     (if i < length (sv_slots s) then
        (case slot_step W A q sz routes (stop_flag (sv_srv s)) (sv_slots s ! i) (sv_world s) of
           None \<Rightarrow> None
         | Some (l, k, said) \<Rightarrow> Some ((put_slot i l s)\<lparr>sv_world := k, sv_sent := sv_sent s @ map (Pair i) said\<rparr>))
      else None)"
| "serve_act W A q sz routes new (Abort i) s =
     (if pc (sv_srv s) = Aborting \<and> i < length (sv_slots s) \<and> in_loop (lc_phase (sv_slots s ! i))
      then Some (put_slot i (leave (held_buffer (lc_phase (sv_slots s ! i))) Ended (sv_slots s ! i)) s) else None)"

definition serving_init :: "ServerConfig \<Rightarrow> 'k \<Rightarrow> ('q, 'k) serving" where
  "serving_init config k = \<lparr>sv_srv = srv_init config, sv_slots = [], sv_world = k, sv_sent = []\<rparr>"

inductive serve_reachable ::
  "'w ov_env \<Rightarrow> 'k http_api \<Rightarrow> RequestQueue \<Rightarrow> nat \<Rightarrow> (u64 \<rightharpoonup> 'k handler) \<Rightarrow> 'q slot_local \<Rightarrow> ServerConfig \<Rightarrow> 'k \<Rightarrow>
   ('q, 'k) serving \<Rightarrow> bool" for W A q sz routes new config k where
  init: "serve_reachable W A q sz routes new config k (serving_init config k)"
| step: "serve_reachable W A q sz routes new config k s \<Longrightarrow> serve_act W A q sz routes new a s = Some t \<Longrightarrow>
    serve_reachable W A q sz routes new config k t"

section \<open>The slots implement the number\<close>

abbreviation running_slots :: "('q, 'k) serving \<Rightarrow> nat" where
  "running_slots s \<equiv> length (filter (\<lambda>l. in_loop (lc_phase l)) (sv_slots s))"

lemma length_filter_update:
  assumes "i < length xs" and "P (xs ! i)"
  shows "length (filter P (xs[i := x])) = (if P x then length (filter P xs) else length (filter P xs) - 1)"
    and "0 < length (filter P xs)"
proof -
  have xs: "xs = take i xs @ xs ! i # drop (Suc i) xs" using assms(1) by (rule id_take_nth_drop)
  have "length (filter P xs) = Suc (length (filter P (take i xs @ drop (Suc i) xs)))"
    by (subst xs) (simp add: assms(2))
  then show "length (filter P (xs[i := x])) = (if P x then length (filter P xs) else length (filter P xs) - 1)"
    and "0 < length (filter P xs)" using assms(1) by (simp_all add: upd_conv_take_nth_drop)
qed

lemma slot_step_running: "slot_step W A q sz routes stop l k = Some x \<Longrightarrow> in_loop (lc_phase l)"
  by (cases "lc_phase l") (simp_all add: slot_step_def)

lemma srv_act_spawned:
  assumes "srv_act a s = Some t" and "a \<noteq> SlotEnds" and "a \<noteq> SlotDies"
  shows "(case pc t of Spawning n \<Rightarrow> n | _ \<Rightarrow> 0) + slots t = (case pc s of Spawning n \<Rightarrow> n | _ \<Rightarrow> 0) + slots s"
    and "slots t = slots s \<or> slots t = Suc (slots s)"
  using assms by (cases a; cases "pc s"; auto split: if_splits nat.splits owner.splits)+

lemma put_slot_simulated:
  assumes "slots (sv_srv s) = running_slots s" and "i < length (sv_slots s)" and "in_loop (lc_phase (sv_slots s ! i))"
  shows "slots (sv_srv (put_slot i l s)) = running_slots (put_slot i l s) \<and>
    (sv_srv (put_slot i l s) = sv_srv s \<or> (\<exists>b. srv_act b (sv_srv s) = Some (sv_srv (put_slot i l s))))"
  using assms(1) length_filter_update [of i "sv_slots s" "\<lambda>l. in_loop (lc_phase l)", OF assms(2,3)]
  by (auto simp: put_slot_def intro!: exI [of _ SlotDies])

lemma serve_act_simulated:
  assumes "serve_act W A q sz routes new a s = Some t" and "slots (sv_srv s) = running_slots s" and "lc_phase new = Idle"
  shows "slots (sv_srv t) = running_slots t \<and> (sv_srv t = sv_srv s \<or> (\<exists>b. srv_act b (sv_srv s) = Some (sv_srv t)))"
proof (cases a)
  case (Thread b)
  then obtain u where u: "srv_act b (sv_srv s) = Some u" "b \<noteq> SlotEnds" "b \<noteq> SlotDies"
    and t: "t = s\<lparr>sv_srv := u, sv_slots := (if slots (sv_srv s) < slots u then sv_slots s @ [new] else sv_slots s)\<rparr>"
    using assms(1) by (auto split: if_splits option.splits)
  show ?thesis using srv_act_spawned(2) [OF u] u(1) assms(2,3) by (auto simp: t)
next
  case (Slot i)
  then obtain l k said where i: "i < length (sv_slots s)"
    and st: "slot_step W A q sz routes (stop_flag (sv_srv s)) (sv_slots s ! i) (sv_world s) = Some (l, k, said)"
    and t: "t = (put_slot i l s)\<lparr>sv_world := k, sv_sent := sv_sent s @ map (Pair i) said\<rparr>"
    using assms(1) by (auto split: if_splits option.splits)
  show ?thesis using put_slot_simulated [OF assms(2) i slot_step_running [OF st], of l] by (auto simp: t)
next
  case (Abort i)
  then show ?thesis using assms(1) put_slot_simulated [OF assms(2), of i] by (auto split: if_splits)
qed

lemma serve_simulates:
  assumes "serve_reachable W A q sz routes new config k s" and "lc_phase new = Idle"
  shows "srv_reachable config (sv_srv s) \<and> slots (sv_srv s) = running_slots s"
  using assms(1)
proof (induction rule: serve_reachable.induct)
  case init
  show ?case by (simp add: serving_init_def srv_init_def srv_reachable.init [of config, unfolded srv_init_def])
next
  case (step s a t)
  then show ?case using serve_act_simulated [OF step(2) _ assms(2)] by (metis srv_reachable.step)
qed

section \<open>Under a contract every slot keeps serving\<close>

definition local_ok :: "nat \<Rightarrow> nat \<Rightarrow> (HTTP_REQUEST_V2 \<Rightarrow> bool) \<Rightarrow> (Response \<Rightarrow> bool) \<Rightarrow> 'q slot_local \<Rightarrow> bool" where
  "local_ok sz mx admits answer l \<longleftrightarrow>
     buffer_pool_inv sz mx (lc_pool l) \<and> (\<forall>b. held_buffer (lc_phase l) = Some b \<longrightarrow> buffer_ok sz mx b) \<and>
     (case lc_phase l of
        Received r b \<Rightarrow> admits (contents b)
      | Replying i response held \<Rightarrow> answer response
      | Died \<Rightarrow> False
      | _ \<Rightarrow> True)"

lemma leave_pool_inv:
  assumes "buffer_pool_inv sz mx (lc_pool l)" and "\<And>b. held = Some b \<Longrightarrow> buffer_ok sz mx b"
  shows "buffer_pool_inv sz mx (lc_pool (leave held ph l))"
  using assms buffer_pool_put_keeps [OF assms(1), of "\<lparr>pb_buffer = held\<rparr>"]
  by (cases held) (simp_all add: leave_def pooled_buffer_drop_def pooled_buffer_ready_def pooled_deref_def)

lemma leave_phase [simp]: "lc_phase (leave held ph l) = ph"
  by (simp add: leave_def)

context slot_service
begin

lemma idle_step_ok:
  assumes "buffer_pool_inv sz mx (lc_pool l)" and "lc_phase l = Idle" and "slot_step W A q sz routes stop l k = Some (l', k', said)"
  shows "local_ok sz mx admits answer l' \<and> k' = k \<and> said = []"
proof -
  obtain p pool where tk: "buffer_pool_take sz (lc_pool l) = (p, pool)" by fastforce
  from buffer_pool_take_keeps [OF assms(1) tk] obtain b where "buffer_pool_inv sz mx pool" "pooled_deref p = Some b" "buffer_ok sz mx b"
    by (auto simp: pooled_buffer_ready_def split: option.splits)
  then show ?thesis using assms tk by (auto simp: slot_step_def local_ok_def split: if_splits)
qed

lemma local_ok_received:
  "buffer_pool_inv sz mx (lc_pool l) \<Longrightarrow> buffer_ok sz mx b \<Longrightarrow> admits (contents b) \<Longrightarrow>
     local_ok sz mx admits answer (l\<lparr>lc_phase := Received r b\<rparr>) \<and> local_ok sz mx admits answer (l\<lparr>lc_mode := mode, lc_phase := Received r b\<rparr>)"
  by (simp add: local_ok_def)

lemma headers_step_ok:
  assumes "buffer_pool_inv sz mx (lc_pool l)" and "buffer_ok sz mx b" and "ok k"
    and "(case receive_headers W A q sz (bp_max_bytes (lc_pool l)) b (lc_mode l) i needed k of
            (r, b, mode, k) \<Rightarrow> Some (l\<lparr>lc_mode := mode, lc_phase := Received r b\<rparr>, k, [])) = Some (l', k', said)"
  shows "local_ok sz mx admits answer l' \<and> ok k' \<and> said = []"
proof -
  obtain r b1 mode k1 where h: "receive_headers W A q sz mx b (lc_mode l) i needed k = (r, b1, mode, k1)" by (rule prod_cases4)
  have "bp_max_bytes (lc_pool l) = mx" using assms(1) by (simp add: buffer_pool_inv_def)
  with assms(4) h show ?thesis
    using local_ok_received [OF assms(1) receive_headers_buffer_ok [OF h assms(2)]] receive_headers_ok [OF assms(3) h] by auto
qed

lemma receive_step_ok:
  assumes "local_ok sz mx admits answer l" and "ok k" and "lc_phase l = Posting b \<or> lc_phase l = Refetching b needed"
    and "slot_step W A q sz routes stop l k = Some (l', k', said)"
  shows "local_ok sz mx admits answer l' \<and> ok k' \<and> said = []"
proof -
  have inv: "buffer_pool_inv sz mx (lc_pool l)" and b: "buffer_ok sz mx b" using assms(1,3) by (auto simp: local_ok_def)
  show ?thesis
  proof (cases "lc_phase l = Posting b \<and> copy_body (lc_mode l)")
    case False
    then show ?thesis using assms(3,4) headers_step_ok [OF inv b assms(2)] by (elim disjE) (simp_all add: slot_step_def)
  next
    case True
    obtain r b1 n1 k1 where o: "receive_once W A q b 0 True 0 k = (r, b1, n1, k1)" by (rule prod_cases4)
    note b1 = receive_once_buffer_ok [OF o b] and k1 = receive_once_ok [OF assms(2) o]
    have "local_ok sz mx admits answer (l\<lparr>lc_mode := m, lc_phase := Refetching b1 n1\<rparr>)" for m
      using inv b1 by (simp add: local_ok_def)
    then show ?thesis using True assms(4) o k1 local_ok_received [OF inv b1, of r] by (auto simp: slot_step_def split: if_splits)
  qed
qed

lemma answer_step_ok:
  assumes "local_ok sz mx admits answer l" and "ok k" and "lc_phase l = Received r b"
    and "slot_step W A q sz routes stop l k = Some (l', k', said)"
  shows "local_ok sz mx admits answer l' \<and> ok k' \<and> said = []"
proof -
  have inv: "buffer_pool_inv sz mx (lc_pool l)" and b: "buffer_ok sz mx b" and adm: "admits (contents b)"
    using assms(1,3) by (auto simp: local_ok_def)
  note left = leave_pool_inv [OF inv, of "Some b"]
  show ?thesis
  proof (cases r)
    case (Inr u)
    then show ?thesis using assms(2-4) b adm left refused handled [OF assms(2), of "\<lparr>req_buffer = b\<rparr>"]
      by (fastforce simp: slot_step_def local_ok_def Let_def split: option.splits)
  next
    case (Inl e)
    then show ?thesis using assms(2-4) inv b left refused
      by (cases e) (auto simp: slot_step_def local_ok_def Let_def split: if_splits)
  qed
qed

lemma slot_step_ok:
  assumes "local_ok sz mx admits answer l" and "ok k" and "slot_step W A q sz routes stop l k = Some (l', k', said)"
  shows "local_ok sz mx admits answer l' \<and> ok k' \<and> (\<forall>(i, response) \<in> set said. answer response)"
proof (cases "lc_phase l")
  case Idle
  then show ?thesis using idle_step_ok [OF _ Idle assms(3)] assms(1,2) by (auto simp: local_ok_def)
next
  case (Replying i response held)
  then show ?thesis using assms send_ok leave_pool_inv [of sz mx l held] by (auto simp: slot_step_def local_ok_def)
next
  case (Posting b)
  then show ?thesis using receive_step_ok [OF assms(1,2) _ assms(3)] by auto
next
  case (Refetching b needed)
  then show ?thesis using receive_step_ok [OF assms(1,2) _ assms(3)] by auto
next
  case (Received r b)
  then show ?thesis using answer_step_ok [OF assms(1,2) _ assms(3)] by auto
qed (use assms(3) in \<open>simp_all add: slot_step_def\<close>)

lemma serving_ok:
  assumes "serve_reachable W A q sz routes new config k s" and "local_ok sz mx admits answer new" and "ok k"
  shows "ok (sv_world s) \<and> (\<forall>l \<in> set (sv_slots s). local_ok sz mx admits answer l) \<and>
    (\<forall>(j, i, response) \<in> set (sv_sent s). answer response)"
  using assms(1)
proof (induction rule: serve_reachable.induct)
  case init
  then show ?case using assms(3) by (simp add: serving_init_def)
next
  case (step s a t)
  show ?case
  proof (cases a)
    case (Thread b)
    then show ?thesis using step assms(2) by (auto split: if_splits option.splits)
  next
    case (Slot i)
    then obtain l k' said where i: "i < length (sv_slots s)"
      and st: "slot_step W A q sz routes (stop_flag (sv_srv s)) (sv_slots s ! i) (sv_world s) = Some (l, k', said)"
      and t: "t = (put_slot i l s)\<lparr>sv_world := k', sv_sent := sv_sent s @ map (Pair i) said\<rparr>"
      using step(2) by (auto split: if_splits option.splits)
    have "local_ok sz mx admits answer (sv_slots s ! i)" using step(3) i by simp
    from slot_step_ok [OF this _ st] step(3) show ?thesis
      by (auto simp: t put_slot_def dest!: set_update_subset_insert [THEN subsetD])
  next
    case (Abort i)
    then have i: "i < length (sv_slots s)" and t: "t = put_slot i (leave (held_buffer (lc_phase (sv_slots s ! i))) Ended (sv_slots s ! i)) s"
      using step(2) by (auto split: if_splits)
    have "local_ok sz mx admits answer (sv_slots s ! i)" using step(3) i by simp
    then have "local_ok sz mx admits answer (leave (held_buffer (lc_phase (sv_slots s ! i))) Ended (sv_slots s ! i))"
      by (auto simp: local_ok_def intro!: leave_pool_inv)
    then show ?thesis using step(3) by (auto simp: t put_slot_def dest!: set_update_subset_insert [THEN subsetD])
  qed
qed

end

lemma slot_new_ok:
  assumes "aq_new_ok new_queue" and "request_buffer_bytes config \<le> max_request_buffer_bytes config"
  shows "local_ok sz (max_request_buffer_bytes config) admits answer (slot_new new_queue config)"
  using assms by (simp add: local_ok_def slot_new_def buffer_pool_inv_def buffer_pool_new_def aq_new_ok_def)

lemma spawn_reachable:
  assumes "0 < concurrency config"
  shows "\<exists>s. serve_reachable W A q sz routes new config k s \<and> sv_slots s = [new]"
proof -
  obtain n where n: "concurrency config = Suc n" using assms by (cases "concurrency config") auto
  let ?s = "serving_init config k"
  have "serve_act W A q sz routes new (Thread SpawnSlot) ?s =
      Some (?s\<lparr>sv_srv := (sv_srv ?s)\<lparr>pc := Spawning n, slots := 1\<rparr>, sv_slots := [new]\<rparr>)"
    by (simp add: serving_init_def srv_init_def n)
  from serve_reachable.step [OF serve_reachable.init this] show ?thesis by fastforce
qed

section \<open>Properties\<close>



lemma serve_spawned:
  assumes "serve_reachable W A q sz routes new config k s"
  shows "length (sv_slots s) + (case pc (sv_srv s) of Spawning n \<Rightarrow> n | _ \<Rightarrow> 0) = concurrency config"
  using assms
proof (induction rule: serve_reachable.induct)
  case init
  show ?case by (simp add: serving_init_def srv_init_def)
next
  case (step s a t)
  show ?case
  proof (cases a)
    case (Thread b)
    then obtain u where u: "srv_act b (sv_srv s) = Some u" "b \<noteq> SlotEnds" "b \<noteq> SlotDies"
      and t: "t = s\<lparr>sv_srv := u, sv_slots := (if slots (sv_srv s) < slots u then sv_slots s @ [new] else sv_slots s)\<rparr>"
      using step(2) by (auto split: if_splits option.splits)
    from srv_act_spawned [OF u] step(3) show ?thesis by (auto simp: t split: if_splits)
  qed (use step in \<open>auto simp: put_slot_def split: if_splits option.splits\<close>)
qed

text \<open>
  C20: The slots implement the abstract server.  In every state that any interleaving of the server thread, its owner and the slots
  reaches, whatever kernel and handlers do, the server thread and its owner are in a reachable state of the abstract server,
  whose counter is the number of slots still running; there are never more slots than configured; and when the thread has served, so
  that it goes on to close the handles, every slot is over.
\<close>

theorem serve_refines_server:
  assumes "serve_reachable W A q sz routes (slot_new new_queue config) config k s"
  shows "srv_reachable config (sv_srv s) \<and>
    slots (sv_srv s) = length (filter (\<lambda>l. in_loop (lc_phase l)) (sv_slots s)) \<and>
    length (sv_slots s) \<le> concurrency config \<and>
    (pc (sv_srv s) = Served \<longrightarrow> (\<forall>l \<in> set (sv_slots s). \<not> in_loop (lc_phase l)))"
proof -
  have sim: "srv_reachable config (sv_srv s)" "slots (sv_srv s) = running_slots s"
    using serve_simulates [OF assms] by (simp_all add: slot_new_def)
  moreover have "pc (sv_srv s) = Served \<longrightarrow> slots (sv_srv s) = 0"
    using srv_inv_reachable [OF sim(1)] by (simp add: srv_inv_def)
  ultimately show ?thesis using serve_spawned [OF assms] by (simp add: filter_empty_conv)
qed

theorem serve_refines_server_witness:
  "\<exists>s. serve_reachable flag_env upload_api test_queue 864 Map.empty (slot_new list_queue_new one_slot) one_slot () s \<and>
     length (sv_slots s) = 1 \<and> slots (sv_srv s) = 1 \<and> srv_reachable one_slot (sv_srv s)"
proof -
  have "0 < concurrency one_slot" by (simp add: one_slot_def)
  then obtain s where
    r: "serve_reachable flag_env upload_api test_queue 864 Map.empty (slot_new list_queue_new one_slot) one_slot () s"
    and s: "sv_slots s = [slot_new list_queue_new one_slot]"
    using spawn_reachable [of one_slot flag_env upload_api test_queue 864 Map.empty "slot_new list_queue_new one_slot" "()"] by blast
  from serve_refines_server [OF r] have "srv_reachable one_slot (sv_srv s)" "slots (sv_srv s) = 1" by (simp_all add: s slot_new_def)
  with r s show ?thesis by auto
qed

end
