(* ===== verification/Bench_Slot.thy ===== *)
theory Bench_Slot
  imports Bench_Servers Httpsys_Slots
begin

text \<open>
  The request slots of the benchmark server: the two handlers of \<open>serve_httpsys\<close> run by the crate's slots, over a world made of
  the kernel, the pool of body buffers the slots share and the messages sent to the main thread.  The handler table keeps
  the contract \<open>slot_service\<close>, so the slots of the benchmark server serve for ever, alone and together.
\<close>

section \<open>The world of the handlers\<close>

record ('k, 'q) bench_world =
  bw_kernel :: 'k
  bw_bodies :: "'q BodyPool"
  bw_stops :: nat

text \<open>The calls of http.sys, in that world.\<close>

definition world_api :: "'k http_api \<Rightarrow> ('k, 'q) bench_world http_api" where
  "world_api A =
     \<lparr>HttpReceiveHttpRequest = (\<lambda>i flag cap w.
        case HttpReceiveHttpRequest A i flag cap (bw_kernel w) of (sb, filled, k) \<Rightarrow> (sb, filled, w\<lparr>bw_kernel := k\<rparr>)),
      HttpReceiveRequestEntityBody = (\<lambda>i n w.
        case HttpReceiveRequestEntityBody A i n (bw_kernel w) of (sb, got, k) \<Rightarrow> (sb, got, w\<lparr>bw_kernel := k\<rparr>)),
      HttpSendHttpResponse = (\<lambda>i x cache w.
        case HttpSendHttpResponse A i x cache (bw_kernel w) of (sb, k) \<Rightarrow> (sb, w\<lparr>bw_kernel := k\<rparr>))\<rparr>"

definition invoke ::
  "'w ov_env \<Rightarrow> 'k http_api \<Rightarrow> RequestQueue \<Rightarrow> ServeOptions \<Rightarrow> bench_route \<Rightarrow> ('k, 'q) bench_world handler" where
  "invoke W A q options kind request w =
     (case kind of
        Bench_Route \<Rightarrow>
          map_option (\<lambda>(response, bodies, k). (response, w\<lparr>bw_kernel := k, bw_bodies := bodies\<rparr>))
            (bench_handler W A q options request (bw_bodies w) (bw_kernel w))
      | Shutdown_Route \<Rightarrow>
          (case shutdown_handler (bw_stops w) of (response, stops) \<Rightarrow> Some (response, w\<lparr>bw_stops := stops\<rparr>)))"

definition bench_routes ::
  "'w ov_env \<Rightarrow> 'k http_api \<Rightarrow> RequestQueue \<Rightarrow> ServeOptions \<Rightarrow> (u64 \<rightharpoonup> bench_route) \<Rightarrow> u64 \<rightharpoonup> ('k, 'q) bench_world handler" where
  "bench_routes W A q options routes c = map_option (invoke W A q options) (routes c)"

section \<open>Answers\<close>

definition reply_wire :: wire_response where
  "reply_wire = \<lparr>wire_status = 200, wire_reason = ''OK'', wire_content_type = Some REPLY_CONTENT_TYPE, wire_headers = [],
     wire_body = REPLY\<rparr>"

lemma bench_response_wire: "wire_of (as_ptr (to_raw (bench_response cache))) = reply_wire"
  by (simp add: wire_of_to_raw bench_response_def Let_def with_body_def with_content_type_def cache_in_kernel_for_secs_def
      response_new_def OK_def reason_phrase_def clip16_def clip32_def REPLY_def REPLY_CONTENT_TYPE_def reply_wire_def)

lemma ok_text_wire: "wire_of (as_ptr (to_raw (ok_text REPLY))) = reply_wire"
  by (simp add: wire_of_to_raw ok_text_def with_body_def with_content_type_def response_new_def OK_def reason_phrase_def
      clip16_def clip32_def REPLY_def REPLY_CONTENT_TYPE_def reply_wire_def)

lemma bench_handler_answers:
  assumes "body_api_ok W q (request_id r) A rest" and "body_pool_inv mr bodies" and "mr \<le> 2 ^ 30"
    and "length (inline_body r) + length (rest k) \<le> 2 ^ 30"
  shows "\<exists>bodies' k'. bench_handler W A q options r bodies k = Some (bench_response (sv_kernel_cache options), bodies', k') \<and>
    body_pool_inv mr bodies'"
proof -
  obtain res bodies' k' where run: "body W A q r bodies k = Some (res, bodies', k')" and inv: "body_pool_inv mr bodies'"
    using body_reads_all [OF assms] by blast
  let ?bodies = "case res of Inl e \<Rightarrow> bodies' | Inr b \<Rightarrow> body_drop b bodies'"
  have "bench_handler W A q options r bodies k = Some (bench_response (sv_kernel_cache options), ?bodies, k')"
    by (cases res) (simp_all add: bench_handler_def run)
  moreover have "body_pool_inv mr ?bodies" using inv body_drop_keeps [OF inv] by (simp split: sum.split)
  ultimately show ?thesis by blast
qed

section \<open>The contract\<close>

text \<open>What http.sys documents of bodies, for every request: they are delivered in order, and none is larger than half a gigabyte,
  neither the part that comes with the headers nor the rest.\<close>

definition inline_bytes :: "HTTP_REQUEST_V2 \<Rightarrow> nat" where
  "inline_bytes c = length (inline_body \<lparr>req_buffer = \<lparr>words = 0, contents = c\<rparr>\<rparr>)"

lemma inline_bytes_of: "length (inline_body r) = inline_bytes (contents (req_buffer r))"
  by (simp add: inline_bytes_def inline_body_def base_def)

definition bench_api_ok :: "'w ov_env \<Rightarrow> RequestQueue \<Rightarrow> 'k http_api \<Rightarrow> (u64 \<Rightarrow> 'k \<Rightarrow> u8 list) \<Rightarrow> bool" where
  "bench_api_ok W q A rest \<longleftrightarrow>
     (\<forall>i. body_api_ok W q i A (rest i)) \<and> (\<forall>i k. length (rest i k) \<le> 2 ^ 29) \<and>
     (\<forall>i flag cap k sb filled k'. HttpReceiveHttpRequest A i flag cap k = (sb, filled, k') \<longrightarrow> inline_bytes filled \<le> 2 ^ 29)"

definition bench_ok ::
  "'w ov_env \<Rightarrow> RequestQueue \<Rightarrow> 'k http_api \<Rightarrow> (u64 \<Rightarrow> 'k \<Rightarrow> u8 list) \<Rightarrow> nat \<Rightarrow> ('k, 'q) bench_world \<Rightarrow> bool" where
  "bench_ok W q A rest mr w \<longleftrightarrow> bench_api_ok W q A rest \<and> mr \<le> 2 ^ 30 \<and> body_pool_inv mr (bw_bodies w)"

definition bench_answer :: "Response \<Rightarrow> bool" where
  "bench_answer response \<longleftrightarrow>
     wire_of (as_ptr (to_raw response)) = reply_wire \<or> response = response_new NOT_FOUND \<or> response = response_new HEADERS_TOO_LARGE"

lemma invoke_answers:
  assumes "bench_ok W q A rest mr w" and "inline_bytes (contents (req_buffer r)) \<le> 2 ^ 29"
  shows "\<exists>response w'. invoke W A q options kind r w = Some (response, w') \<and> bench_ok W q A rest mr w' \<and>
    wire_of (as_ptr (to_raw response)) = reply_wire"
proof (cases kind)
  case Shutdown_Route
  then show ?thesis using assms(1) by (simp add: invoke_def shutdown_handler_def ok_text_wire bench_ok_def)
next
  case Bench_Route
  have api: "body_api_ok W q (request_id r) A (rest (request_id r))" and small: "length (rest (request_id r) (bw_kernel w)) \<le> 2 ^ 29"
    and inv: "body_pool_inv mr (bw_bodies w)" "mr \<le> 2 ^ 30"
    using assms(1) by (simp_all add: bench_ok_def bench_api_ok_def)
  have "length (inline_body r) + length (rest (request_id r) (bw_kernel w)) \<le> 2 ^ 30"
    using small assms(2) by (simp add: inline_bytes_of)
  from bench_handler_answers [OF api inv this, of options] assms(1) show ?thesis
    by (auto simp: invoke_def Bench_Route bench_response_wire bench_ok_def)
qed

interpretation bench_slot: slot_service "world_api A" "bench_routes W A q options routes"
    "bench_ok W q A rest mr :: ('k, 'q) bench_world \<Rightarrow> bool" "\<lambda>c. inline_bytes c \<le> 2 ^ 29" bench_answer
  for A :: "'k http_api" and W :: "'w ov_env" and q options routes rest mr
proof unfold_locales
  fix k k' :: "('k, 'q) bench_world" and i flag cap sb filled
  assume "bench_ok W q A rest mr k" "HttpReceiveHttpRequest (world_api A) i flag cap k = (sb, filled, k')"
  then show "bench_ok W q A rest mr k' \<and> inline_bytes filled \<le> 2 ^ 29"
    by (auto simp: world_api_def bench_ok_def bench_api_ok_def split: prod.splits) blast
next
  fix k k' :: "('k, 'q) bench_world" and i x cache sb
  assume "bench_ok W q A rest mr k" "HttpSendHttpResponse (world_api A) i x cache k = (sb, k')"
  then show "bench_ok W q A rest mr k'" by (auto simp: world_api_def bench_ok_def split: prod.splits)
next
  fix k :: "('k, 'q) bench_world" and r and h :: "('k, 'q) bench_world handler"
  assume "bench_ok W q A rest mr k" "inline_bytes (contents (req_buffer r)) \<le> 2 ^ 29"
    "bench_routes W A q options routes (url_context r) = Some h"
  then show "\<exists>response k'. h r k = Some (response, k') \<and> bench_ok W q A rest mr k' \<and> bench_answer response"
    using invoke_answers [of W q A rest mr k r options] by (auto simp: bench_routes_def bench_answer_def) blast
qed (simp_all add: inline_bytes_def inline_body_def base_def zeroed_request_def bench_answer_def)

section \<open>The slots of the benchmark server\<close>

lemma serve_httpsys_setup_config:
  assumes "run_state (serve_httpsys_setup K message parallelism tcp_port path options) l = (Inr b, l')"
  shows "sb_config b = (server_config_default parallelism)\<lparr>request_buffer_bytes := sv_request_buffer_bytes options\<rparr>"
proof -
  let ?config = "(server_config_default parallelism)\<lparr>request_buffer_bytes := sv_request_buffer_bytes options\<rparr>"
  obtain c l1 where c: "run_state (with_config K ?config) l = (c :: bench_route ServerBuilder result, l1)" by fastforce
  show ?thesis
  proof (cases c)
    case (Inl e)
    then show ?thesis using assms c by (auto simp: serve_httpsys_setup_def Let_def)
  next
    case (Inr b1)
    note f = with_config_fields [OF c [unfolded Inr]]
    show ?thesis using assms f by (auto simp: serve_httpsys_setup_def Let_def c Inr run_route_or_drop split: if_splits)
  qed
qed

lemma serve_bodies_inv: "aq_new_ok new_queue \<Longrightarrow> body_pool_inv (max_pooled_body_bytes config) (serve_bodies new_queue config)"
  by (simp add: aq_new_ok_def body_pool_inv_def body_pool_new_def serve_bodies_def)

text \<open>A kernel with one request, of the benchmark path and with its body in the headers' buffer, over and over again.\<close>

definition bench_api :: "unit http_api" where
  "bench_api = upload_api\<lparr>HttpReceiveHttpRequest := (\<lambda>i flag cap k.
     (no_submission, zeroed_request\<lparr>RequestId := 7, UrlContext := 1, EntityChunkCount := 1,
        pEntityChunks := Some \<lparr>pBuffer = Some [10, 20], BufferLength = 2\<rparr>\<rparr>, k))\<rparr>"

lemma bench_api_documented: "bench_api_ok flag_env q bench_api (\<lambda>_ _. [])"
  by (auto simp: bench_api_ok_def body_api_ok_def bench_api_def upload_api_def op_finish_def no_submission_def inline_bytes_def
      inline_body_def base_def zeroed_request_def ERROR_HANDLE_EOF_def ERROR_IO_PENDING_def split: if_splits sum.splits)

end
