(* ===== verification/Bench_Sweep.thy ===== *)
theory Bench_Sweep
  imports Bench_Cpu Bench_Fmt
begin

text \<open>
  The head-to-head sweep (\<open>tools/httpbench/src/sweep.rs\<close>): the options and payloads, the server process with
  its guard, the two sweeps over it, the samples, and the summary, series and CSV made of them.  Console output other
  than the summary is left out; so are the file system and the drawing.
\<close>

section \<open>Options\<close>

definition ENGINES :: "Engine list" where
  "ENGINES = [Engine_Httpsys, Engine_Axum]"

record SweepOptions =
  so_ports :: "u16 list"
  so_path :: string
  so_duration :: Duration
  so_warmup :: Duration
  so_connections :: "nat list"
  so_sizes :: "nat list"
  so_size_sweep_connections :: nat
  so_concurrency_sweep_bytes :: nat
  so_out_dir :: string
  so_kernel_cache :: bool

definition port_for :: "SweepOptions \<Rightarrow> nat \<Rightarrow> u16 bench_result" where
  "port_for options index =
     (if index < length (so_ports options) then Inr (so_ports options ! index)
      else Inl (''expected '' @ decimal (length ENGINES) @ '' ports, one per engine, got '' @
                decimal (length (so_ports options))))"

definition sweep_spec :: "SweepOptions \<Rightarrow> u16 \<Rightarrow> u8 list \<Rightarrow> nat \<Rightarrow> LoadSpec" where
  "sweep_spec options port body connections =
     \<lparr>ls_host = ''127.0.0.1'', ls_port = port, ls_path = so_path options, ls_body = body,
      ls_connections = connections, ls_duration = so_duration options\<rparr>"

section \<open>Payloads\<close>

definition xorshift :: "u64 \<Rightarrow> u64" where
  "xorshift state =
     (let state = state XOR push_bit 13 state;
          state = state XOR drop_bit 7 state
      in state XOR push_bit 17 state)"

definition to_le_bytes :: "u64 \<Rightarrow> u8 list" where
  "to_le_bytes w = map (\<lambda>i. ucast (drop_bit (8 * i) w)) [0..<8]"

lemma length_to_le_bytes [simp]: "length (to_le_bytes w) = 8"
  by (simp add: to_le_bytes_def)

function payload_fill :: "nat \<Rightarrow> u64 \<Rightarrow> u8 list \<Rightarrow> u8 list" where
  "payload_fill sz state buffer =
     (if length buffer < sz then
        let state = xorshift state in payload_fill sz state (buffer @ to_le_bytes state)
      else buffer)"
  by auto

termination
  by (relation "measure (\<lambda>(sz, state, buffer). sz - length buffer)") auto

definition payload :: "nat \<Rightarrow> u8 list" where
  "payload sz = take sz (payload_fill sz 0x2545F4914F6CDD1D [])"

section \<open>The server process\<close>

record ServerProcess =
  sp_child :: u32
  sp_cpu :: ProcessCpu

definition spawn_args :: "string \<Rightarrow> Engine \<Rightarrow> u16 \<Rightarrow> SweepOptions \<Rightarrow> string list" where
  "spawn_args exe engine port options =
     [exe, ''serve'', ''--engine'', label engine, ''--port'', decimal (unat port), ''--path'', so_path options] @
     (if so_kernel_cache options \<and> engine = Engine_Httpsys then [''--kernel-cache''] else [])"

definition wait_ready :: "'n net \<Rightarrow> SweepOptions \<Rightarrow> u16 \<Rightarrow> ('n, unit) io" where
  "wait_ready N options port = wait_until_ready N (sweep_spec options port [] 1) (20 * 10 ^ 9)"

definition server_process_drop :: "'n os \<Rightarrow> ServerProcess \<Rightarrow> 'n \<Rightarrow> 'n" where
  "server_process_drop O' p n =
     (let n = child_kill O' (sp_child p) n; n = child_wait O' (sp_child p) n
      in process_cpu_drop O' (sp_cpu p) n)"

text \<open>\<open>spawn\<close>, and its part once the child runs: until the guard is built, an early return only drops the \<open>Child\<close>,
  which leaves the process running.\<close>

definition server_process_open ::
  "'n os \<Rightarrow> 'n net \<Rightarrow> u16 \<Rightarrow> SweepOptions \<Rightarrow> u32 \<Rightarrow> ('n, ServerProcess) io" where
  "server_process_open O' N port options child =
     io_try (io_lift (process_cpu_open O' child)) (\<lambda>cpu.
       let server = \<lparr>sp_child = child, sp_cpu = cpu\<rparr> in
       io_on_error (server_process_drop O' server)
         (io_try (wait_ready N options port) (\<lambda>_. io_return server)))"

definition server_process_spawn ::
  "'n os \<Rightarrow> 'n net \<Rightarrow> Engine \<Rightarrow> u16 \<Rightarrow> SweepOptions \<Rightarrow> ('n, ServerProcess) io" where
  "server_process_spawn O' N engine port options =
     io_try (io_lift (current_exe O')) (\<lambda>exe.
     io_try (io_lift (cmd_spawn O' (spawn_args exe engine port options)))
       (server_process_open O' N port options))"

text \<open>The polling loop of \<open>stop\<close>: whether the child was seen to have exited.\<close>

fun stop_poll :: "nat \<Rightarrow> 'n os \<Rightarrow> 'n net \<Rightarrow> u32 \<Rightarrow> 'n \<Rightarrow> bool \<times> 'n" where
  "stop_poll 0 O' N child n = (False, n)"
| "stop_poll (Suc k) O' N child n =
     (case try_wait O' child n of
        (Inr True, n) \<Rightarrow> (True, n)
      | (Inr False, n) \<Rightarrow> stop_poll k O' N child (sleep_ms N 50 n)
      | (Inl e, n) \<Rightarrow> (False, n))"

text \<open>\<open>stop\<close> consumes the guard, so its destructor runs at the end on every path.\<close>

definition server_process_stop :: "'n os \<Rightarrow> 'n net \<Rightarrow> ServerProcess \<Rightarrow> SweepOptions \<Rightarrow> u16 \<Rightarrow> 'n \<Rightarrow> 'n" where
  "server_process_stop O' N p options port n =
     (let spec = (sweep_spec options port [] 1)\<lparr>ls_path := shutdown_path (so_path options), ls_duration := 0\<rparr>;
          n = snd (single_request N spec n)
      in case stop_poll 40 O' N (sp_child p) n of (exited, n) \<Rightarrow>
        let n = (if exited then n else child_wait O' (sp_child p) (child_kill O' (sp_child p) n))
        in server_process_drop O' p n)"

section \<open>Measuring\<close>

record Sample =
  sm_engine :: Engine
  sm_x :: f64
  sm_body_bytes :: nat
  sm_connections :: nat
  sm_requests :: nat
  sm_rps :: f64
  sm_mean_ms :: f64
  sm_p50_ms :: f64
  sm_p99_ms :: f64
  sm_cores :: f64
  sm_cpu_us_per_request :: f64

definition sample_mib_per_second :: "float_env \<Rightarrow> Sample \<Rightarrow> f64" where
  "sample_mib_per_second F s =
     fp_div F (fp_mul F (sm_rps s) (fp_of_nat F (sm_body_bytes s))) f_MIB"

text \<open>\<open>load::run\<close> on the environment: its tasks run, their outcomes are merged.\<close>

definition run_load :: "'n os \<Rightarrow> LoadSpec \<Rightarrow> 'n \<Rightarrow> LoadResult bench_result \<times> 'n" where
  "run_load O' spec n =
     (case run_tasks O' spec n of ((join, elapsed), n) \<Rightarrow> (Inr (load_run spec join elapsed), n))"

definition f_half :: f64 where "f_half = F64 0x3FE0000000000000"

definition f_99pc :: f64 where "f_99pc = F64 0x3FEFAE147AE147AE"

definition measure_point ::
  "'n os \<Rightarrow> 'n net \<Rightarrow> float_env \<Rightarrow> ServerProcess \<Rightarrow> Engine \<Rightarrow> f64 \<Rightarrow> LoadSpec \<Rightarrow> SweepOptions \<Rightarrow> ('n, Sample) io" where
  "measure_point O' N F server engine x spec options =
     io_try (if so_warmup options \<noteq> 0
             then io_lift (run_load O' (spec\<lparr>ls_duration := so_warmup options\<rparr>))
             else io_return load_result_default) (\<lambda>_.
     io_try (io_lift (snapshot O' N (sp_cpu server))) (\<lambda>before.
     io_try (io_lift (run_load O' spec)) (\<lambda>result.
     io_try (io_lift (snapshot O' N (sp_cpu server))) (\<lambda>after.
       let cpu_us_per_request =
             (if requests result = 0 then f_0
              else fp_div F (fp_mul F (fp_as_secs F (cpu_between before after)) f_1e6) (fp_of_nat F (requests result)))
       in io_return \<lparr>sm_engine = engine, sm_x = x, sm_body_bytes = length (ls_body spec),
            sm_connections = ls_connections spec, sm_requests = requests result,
            sm_rps = requests_per_second F result, sm_mean_ms = mean_ms F result,
            sm_p50_ms = percentile_ms F result f_half, sm_p99_ms = percentile_ms F result f_99pc,
            sm_cores = cores_between F before after, sm_cpu_us_per_request = cpu_us_per_request\<rparr>))))"

text \<open>The loop of a sweep over its points, each the spec of a load run with its place on the axis.\<close>

fun measure_points ::
  "'n os \<Rightarrow> 'n net \<Rightarrow> float_env \<Rightarrow> ServerProcess \<Rightarrow> Engine \<Rightarrow> SweepOptions \<Rightarrow> (f64 \<times> LoadSpec) list \<Rightarrow> ('n, Sample list) io" where
  "measure_points O' N F server engine options [] = io_return []"
| "measure_points O' N F server engine options ((x, spec) # points) =
     io_try (measure_point O' N F server engine x spec options) (\<lambda>sample.
     io_try (measure_points O' N F server engine options points) (\<lambda>samples. io_return (sample # samples)))"

definition sweep_server ::
  "'n os \<Rightarrow> 'n net \<Rightarrow> float_env \<Rightarrow> Engine \<Rightarrow> u16 \<Rightarrow> SweepOptions \<Rightarrow> (f64 \<times> LoadSpec) list \<Rightarrow> ('n, Sample list) io" where
  "sweep_server O' N F engine port options points =
     io_try (server_process_spawn O' N engine port options) (\<lambda>server.
     io_try (io_on_error (server_process_drop O' server) (measure_points O' N F server engine options points)) (\<lambda>samples n.
       io_return samples (server_process_stop O' N server options port n)))"

definition concurrency_sweep ::
  "'n os \<Rightarrow> 'n net \<Rightarrow> float_env \<Rightarrow> Engine \<Rightarrow> u16 \<Rightarrow> SweepOptions \<Rightarrow> ('n, Sample list) io" where
  "concurrency_sweep O' N F engine port options =
     (let body = payload (so_concurrency_sweep_bytes options) in
      sweep_server O' N F engine port options
        (map (\<lambda>connections. (fp_of_nat F connections, sweep_spec options port body connections)) (so_connections options)))"

definition size_sweep ::
  "'n os \<Rightarrow> 'n net \<Rightarrow> float_env \<Rightarrow> Engine \<Rightarrow> u16 \<Rightarrow> SweepOptions \<Rightarrow> ('n, Sample list) io" where
  "size_sweep O' N F engine port options =
     sweep_server O' N F engine port options
       (map (\<lambda>sz. (fp_of_nat F sz, sweep_spec options port (payload sz) (so_size_sweep_connections options)))
         (so_sizes options))"

text \<open>The part of \<open>run\<close> that drives the engines, one after the other.\<close>

fun run_engines ::
  "'n os \<Rightarrow> 'n net \<Rightarrow> float_env \<Rightarrow> SweepOptions \<Rightarrow> (nat \<times> Engine) list \<Rightarrow> ('n, Sample list \<times> Sample list) io" where
  "run_engines O' N F options [] = io_return ([], [])"
| "run_engines O' N F options ((index, engine) # rest) =
     (case port_for options index of
        Inl e \<Rightarrow> io_fail e
      | Inr port \<Rightarrow>
          io_try (concurrency_sweep O' N F engine port options) (\<lambda>concurrency.
          io_try (size_sweep O' N F engine port options) (\<lambda>sizes.
          io_try (run_engines O' N F options rest) (\<lambda>(cs, ss). io_return (concurrency @ cs, sizes @ ss)))))"

definition sweep_run :: "'n os \<Rightarrow> 'n net \<Rightarrow> float_env \<Rightarrow> SweepOptions \<Rightarrow> ('n, Sample list \<times> Sample list) io" where
  "sweep_run O' N F options = run_engines O' N F options (enumerate 0 ENGINES)"

declare payload_fill.simps [simp del]

section \<open>Summary, series, CSV\<close>

definition best :: "Sample list \<Rightarrow> (Sample \<Rightarrow> f64) \<Rightarrow> Sample list" where
  "best samples metric =
     List.map_filter (\<lambda>engine. max_by_key metric (filter (\<lambda>s. sm_engine s = engine) samples)) ENGINES"

definition cores_per_mib :: "float_env \<Rightarrow> Sample \<Rightarrow> f64" where
  "cores_per_mib F sample = fp_div F (sm_cores sample) (f_max (sample_mib_per_second F sample) f_MIN_POSITIVE)"

definition pad_right :: "nat \<Rightarrow> string \<Rightarrow> string" where
  "pad_right width s = s @ replicate (width - length s) (CHR '' '')"

text \<open>\<open>compare\<close> as the lines it prints; \<open>None\<close> is the panic of the slice \<open>samples[..1]\<close>.\<close>

definition compare ::
  "float_env \<Rightarrow> string \<Rightarrow> Sample list \<Rightarrow> (Sample \<Rightarrow> string) \<Rightarrow> (Sample \<Rightarrow> Sample \<Rightarrow> f64) \<Rightarrow> string list option" where
  "compare F title samples describe ratio =
     (let lines = ['''', title] @
            map (\<lambda>s. ''  '' @ pad_right 8 (label (sm_engine s)) @ '' '' @ describe s) samples
      in if length samples < 1 then None
         else case (take 1 samples, drop 1 samples) of
           ([httpsys], [axum]) \<Rightarrow>
             let factor = ratio httpsys axum;
                 verdict = (if f_ge factor f_1 then ''faster'' else ''slower'')
             in Some (lines @ [''  -> httpsys is '' @ fp_fixed F 2 factor @ ''x '' @ verdict @ '' than axum''])
         | _ \<Rightarrow> Some lines)"

text \<open>Printing one part after the other; the first panic ends it.\<close>

fun print_all :: "string list option list \<Rightarrow> string list option" where
  "print_all [] = Some []"
| "print_all (None # parts) = None"
| "print_all (Some ls # parts) = map_option (\<lambda>more. ls @ more) (print_all parts)"

definition report :: "float_env \<Rightarrow> Sample list \<Rightarrow> Sample list \<Rightarrow> string list option" where
  "report F concurrency sizes = print_all
     [Some ['''', ''=== Summary ===''],
      compare F ''Peak throughput (small requests)'' (best concurrency sm_rps)
        (\<lambda>s. fmt_rate F (sm_rps s) @ '' req/s @ '' @ decimal (sm_connections s) @ '' conns'')
        (\<lambda>a b. fp_div F (sm_rps a) (sm_rps b)),
      compare F ''Peak ingest throughput (large requests)'' (best sizes (sample_mib_per_second F))
        (\<lambda>s. fmt_mib_per_second F (sample_mib_per_second F s) @ '' MiB/s @ '' @
             fmt_bytes F (fp_of_nat F (sm_body_bytes s)) @ '' body'')
        (\<lambda>a b. fp_div F (sample_mib_per_second F a) (sample_mib_per_second F b)),
      compare F ''CPU per request at peak load'' (best concurrency sm_rps)
        (\<lambda>s. fp_fixed F 1 (sm_cpu_us_per_request s) @ '' us/req'')
        (\<lambda>a b. fp_div F (sm_cpu_us_per_request b) (f_max (sm_cpu_us_per_request a) f_MIN_POSITIVE)),
      compare F ''CPU cost of the largest uploads'' (best sizes (\<lambda>s. fp_of_nat F (sm_body_bytes s)))
        (\<lambda>s. fp_fixed F 2 (sm_cores s) @ '' cores for '' @ fmt_mib_per_second F (sample_mib_per_second F s) @
             '' MiB/s at '' @ fmt_bytes F (fp_of_nat F (sm_body_bytes s)) @ '' body'')
        (\<lambda>a b. fp_div F (cores_per_mib F b) (f_max (cores_per_mib F a) f_MIN_POSITIVE))]"

definition series_for :: "Sample list \<Rightarrow> Engine \<Rightarrow> (Sample \<Rightarrow> f64) \<Rightarrow> (f64 \<times> f64) list" where
  "series_for samples engine val =
     sort_key fst (map (\<lambda>s. (sm_x s, val s)) (filter (\<lambda>s. sm_engine s = engine) samples))"

record Series =
  se_name :: string
  se_color :: "u8 \<times> u8 \<times> u8"
  se_dashed :: bool
  se_points :: "(f64 \<times> f64) list"

fun color_of :: "Engine \<Rightarrow> u8 \<times> u8 \<times> u8" where
  "color_of Engine_Httpsys = (0, 114, 198)"
| "color_of Engine_Axum = (214, 73, 55)"

definition engine_series :: "Sample list \<Rightarrow> (Sample \<Rightarrow> f64) \<Rightarrow> string \<Rightarrow> bool \<Rightarrow> Series list" where
  "engine_series samples val suffix_text dashed =
     map (\<lambda>engine. \<lparr>se_name = (if suffix_text = [] then label engine else label engine @ '' '' @ suffix_text),
         se_color = color_of engine, se_dashed = dashed, se_points = series_for samples engine val\<rparr>) ENGINES"

definition csv_row :: "float_env \<Rightarrow> string \<Rightarrow> Sample \<Rightarrow> string" where
  "csv_row F sweep s =
     sweep @ '','' @ label (sm_engine s) @ '','' @ decimal (sm_connections s) @ '','' @ decimal (sm_body_bytes s) @
     '','' @ decimal (sm_requests s) @ '','' @ fp_fixed F 1 (sm_rps s) @ '','' @ fp_fixed F 4 (sm_mean_ms s) @
     '','' @ fp_fixed F 4 (sm_p50_ms s) @ '','' @ fp_fixed F 4 (sm_p99_ms s) @ '','' @ fp_fixed F 4 (sm_cores s) @
     '','' @ fp_fixed F 2 (sm_cpu_us_per_request s) @ [CHR 0x0A]"

definition csv_text :: "float_env \<Rightarrow> Sample list \<Rightarrow> Sample list \<Rightarrow> string" where
  "csv_text F concurrency sizes =
     ''sweep,engine,connections,body_bytes,requests,rps,mean_ms,p50_ms,p99_ms,cpu_cores,cpu_us_per_request'' @
     [CHR 0x0A] @ concat (map (csv_row F ''concurrency'') concurrency) @ concat (map (csv_row F ''size'') sizes)"

section \<open>The generator\<close>

lemma xor_zero_eq:
  fixes v w :: "'a::len word"
  assumes "v XOR w = 0"
  shows "v = w"
  using arg_cong [OF assms, of "\<lambda>x. x XOR w"] by (simp add: xor.assoc)

lemma xor_push_zero:
  fixes w :: "'a::len word"
  assumes "0 < k" and "w XOR push_bit k w = 0"
  shows "w = 0"
proof -
  have w: "w = push_bit k w" using assms(2) by (rule xor_zero_eq)
  have "\<not> bit w n" for n
  proof (induction n rule: less_induct)
    case (less n)
    show ?case using less [of "n - k"] assms(1) by (subst w) (auto simp: bit_push_bit_iff)
  qed
  then show ?thesis by (simp add: bit_eq_iff)
qed

lemma xor_drop_zero:
  fixes w :: "'a::len word"
  assumes "0 < k" and "w XOR drop_bit k w = 0"
  shows "w = 0"
proof -
  have w: "w = drop_bit k w" using assms(2) by (rule xor_zero_eq)
  have "\<not> bit w n" for n
  proof (induction "LENGTH('a) - n" arbitrary: n rule: less_induct)
    case less
    show ?case
    proof (cases "n < LENGTH('a)")
      case True
      then show ?thesis using less [of "n + k"] assms(1) by (subst w) (simp add: bit_drop_bit_eq add.commute)
    next
      case False
      then show ?thesis using bit_imp_le_length by blast
    qed
  qed
  then show ?thesis by (simp add: bit_eq_iff)
qed

lemma xorshift_nonzero: "s \<noteq> 0 \<Longrightarrow> xorshift s \<noteq> 0"
  using xor_push_zero [of 13 s] xor_drop_zero [of 7 "s XOR push_bit 13 s"]
    xor_push_zero [of 17 "(s XOR push_bit 13 s) XOR drop_bit 7 (s XOR push_bit 13 s)"]
  by (auto simp: xorshift_def Let_def)

lemma xorshift_iterate_nonzero: "s \<noteq> 0 \<Longrightarrow> (xorshift ^^ i) s \<noteq> 0"
  by (induction i) (simp_all add: xorshift_nonzero)

lemma to_le_bytes_zero:
  assumes "to_le_bytes w = replicate 8 0"
  shows "w = 0"
proof -
  have byte: "ucast (drop_bit (8 * i) w) = (0 :: u8)" if "i < 8" for i
    using arg_cong [OF assms, of "\<lambda>l. l ! i"] that by (simp add: to_le_bytes_def)
  have "\<not> bit w n" if "n < 64" for n
  proof -
    have "n div 8 < 8" using that by simp
    from byte [OF this] have "\<not> bit (ucast (drop_bit (8 * (n div 8)) w) :: u8) (n mod 8)" by simp
    then show ?thesis by (simp add: bit_ucast_iff bit_drop_bit_eq)
  qed
  then show ?thesis by (intro bit_word_eqI) simp
qed

text \<open>The fill loop writes whole blocks.\<close>

fun payload_blocks :: "nat \<Rightarrow> u64 \<Rightarrow> u8 list" where
  "payload_blocks 0 s = []"
| "payload_blocks (Suc k) s = to_le_bytes (xorshift s) @ payload_blocks k (xorshift s)"

lemma length_payload_blocks [simp]: "length (payload_blocks k s) = 8 * k"
  by (induction k arbitrary: s) simp_all

lemma div_ceil_step:
  assumes "0 < (d :: nat)" and "0 < b"
  shows "div_ceil d b = Suc (div_ceil (d - b) b)"
proof -
  obtain e where d: "d = Suc e" using assms(1) by (cases d) auto
  then have "div_ceil d b = Suc (e div b)"
    using assms(2) div_add_self1 [of b e] by (simp add: div_ceil_def add.commute)
  also have "e div b = div_ceil (d - b) b"
    using assms(2) by (cases "d \<le> b") (simp_all add: div_ceil_def d)
  finally show ?thesis .
qed

lemma payload_fill_blocks: "payload_fill sz s b = b @ payload_blocks (div_ceil (sz - length b) 8) s"
proof (induction sz s b rule: payload_fill.induct)
  case (1 sz s b)
  show ?case
  proof (cases "length b < sz")
    case True
    then have "div_ceil (sz - length b) 8 = Suc (div_ceil (sz - (length b + 8)) 8)"
      using div_ceil_step [of "sz - length b" 8] by simp
    then show ?thesis using 1 [OF True refl] True by (subst payload_fill.simps) (simp add: Let_def)
  qed (subst payload_fill.simps, simp add: div_ceil_def)
qed

lemma payload_blocks_nth:
  "i < k \<Longrightarrow> take 8 (drop (8 * i) (payload_blocks k s)) = to_le_bytes ((xorshift ^^ Suc i) s)"
proof (induction k arbitrary: i s)
  case (Suc k)
  then show ?case
    by (cases i) (simp_all add: funpow_swap1)
qed simp

lemma payload_blocks_prefix: "j \<le> k \<Longrightarrow> take (8 * j) (payload_blocks k s) = payload_blocks j s"
proof (induction k arbitrary: j s)
  case (Suc k)
  then show ?case by (cases j) simp_all
qed simp

section \<open>Who is still running\<close>

text \<open>
  \<open>alive\<close> names the processes running in an environment state.  What the operating system documents: only
  \<open>spawn\<close> starts a process, and it is the one it returns; a child that was waited for is gone; nothing else
  the tool calls starts one.
\<close>

definition net_quiet :: "'n net \<Rightarrow> ('n \<Rightarrow> u32 set) \<Rightarrow> bool" where
  "net_quiet N alive \<longleftrightarrow>
     (\<forall>a n. alive (snd (tcp_connect N a n)) \<subseteq> alive n) \<and> (\<forall>n. alive (snd (handshake N n)) \<subseteq> alive n) \<and>
     (\<forall>r n. alive (snd (send_request N r n)) \<subseteq> alive n) \<and> (\<forall>n. alive (snd (collect_body N n)) \<subseteq> alive n) \<and>
     (\<forall>n. alive (close_connection N n) \<subseteq> alive n) \<and> (\<forall>n. alive (snd (now N n)) \<subseteq> alive n) \<and>
     (\<forall>k n. alive (sleep_ms N k n) \<subseteq> alive n)"

definition os_documented :: "'n os \<Rightarrow> ('n \<Rightarrow> u32 set) \<Rightarrow> bool" where
  "os_documented O' alive \<longleftrightarrow>
     (\<forall>n. alive (snd (current_exe O' n)) \<subseteq> alive n) \<and>
     (\<forall>args n. alive (snd (cmd_spawn O' args n)) \<subseteq>
        (case fst (cmd_spawn O' args n) of Inl e \<Rightarrow> alive n | Inr pid \<Rightarrow> insert pid (alive n))) \<and>
     (\<forall>pid n. alive (snd (try_wait O' pid n)) \<subseteq> alive n) \<and> (\<forall>pid n. alive (child_kill O' pid n) \<subseteq> alive n) \<and>
     (\<forall>pid n. alive (child_wait O' pid n) \<subseteq> alive n - {pid}) \<and>
     (\<forall>pid n. alive (snd (OpenProcess O' pid n)) \<subseteq> alive n) \<and>
     (\<forall>h n. alive (snd (GetProcessTimes O' h n)) \<subseteq> alive n) \<and>
     (\<forall>h n. alive (CloseProcessHandle O' h n) \<subseteq> alive n) \<and> (\<forall>spec n. alive (snd (run_tasks O' spec n)) \<subseteq> alive n)"

text \<open>\<open>leaves alive m P\<close>: from any state, what \<open>m\<close> leaves running beyond what ran before is within \<open>P\<close> of its
  value, and nothing when it fails.\<close>

definition leaves :: "('n \<Rightarrow> u32 set) \<Rightarrow> ('n, 'a) io \<Rightarrow> ('a \<Rightarrow> u32 set) \<Rightarrow> bool" where
  "leaves alive m P \<longleftrightarrow>
     (\<forall>n r n'. m n = Some (r, n') \<longrightarrow> alive n' \<subseteq> alive n \<union> (case r of Inl e \<Rightarrow> {} | Inr x \<Rightarrow> P x))"

lemma leavesI:
  assumes "\<And>n e n'. m n = Some (Inl e, n') \<Longrightarrow> alive n' \<subseteq> alive n"
    and "\<And>n x n'. m n = Some (Inr x, n') \<Longrightarrow> alive n' \<subseteq> alive n \<union> P x"
  shows "leaves alive m P"
  unfolding leaves_def using assms by (auto split: sum.split)

lemma leavesD:
  assumes "leaves alive m P"
  shows "m n = Some (Inl e, n') \<Longrightarrow> alive n' \<subseteq> alive n" and "m n = Some (Inr x, n') \<Longrightarrow> alive n' \<subseteq> alive n \<union> P x"
  using assms unfolding leaves_def by fastforce+

named_theorems leaves_rules

lemma leaves_return [leaves_rules]: "leaves alive (io_return x) (\<lambda>_. {})"
  by (simp add: leaves_def io_return_def)

lemma leaves_fail [leaves_rules]: "leaves alive (io_fail e) (\<lambda>_. {})"
  by (simp add: leaves_def io_fail_def)

lemma leaves_lift: "(\<And>n. alive (snd (m n)) \<subseteq> alive n) \<Longrightarrow> leaves alive (io_lift m) (\<lambda>_. {})"
  unfolding leaves_def io_lift_def by (force split: sum.splits)

lemma leaves_try [leaves_rules]:
  assumes "leaves alive m (\<lambda>_. {})" and "\<And>x. leaves alive (f x) P"
  shows "leaves alive (io_try m f) P"
proof (rule leavesI)
  fix n e n'
  assume "io_try m f n = Some (Inl e, n')"
  then show "alive n' \<subseteq> alive n"
    using leavesD [OF assms(1)] leavesD [OF assms(2)]
    by (fastforce simp: io_try_def split: option.splits prod.splits sum.splits)
next
  fix n x n'
  assume "io_try m f n = Some (Inr x, n')"
  then show "alive n' \<subseteq> alive n \<union> P x"
    using leavesD [OF assms(1)] leavesD [OF assms(2)]
    by (fastforce simp: io_try_def split: option.splits prod.splits sum.splits)
qed

lemma net_quietD:
  assumes "net_quiet N alive"
  shows "tcp_connect N a n = (x, n') \<Longrightarrow> alive n' \<subseteq> alive n" and "handshake N n = (x, n') \<Longrightarrow> alive n' \<subseteq> alive n"
    and "send_request N r n = (y, n') \<Longrightarrow> alive n' \<subseteq> alive n" and "collect_body N n = (x, n') \<Longrightarrow> alive n' \<subseteq> alive n"
    and "alive (close_connection N n) \<subseteq> alive n" and "now N n = (t, n') \<Longrightarrow> alive n' \<subseteq> alive n"
    and "alive (sleep_ms N k n) \<subseteq> alive n"
  using assms unfolding net_quiet_def by (metis snd_conv)+

lemma os_documentedD:
  assumes "os_documented O' alive"
  shows "alive (snd (current_exe O' n)) \<subseteq> alive n" and "alive (snd (try_wait O' pid n)) \<subseteq> alive n"
    and "alive (child_kill O' pid n) \<subseteq> alive n" and "alive (child_wait O' pid n) \<subseteq> alive n - {pid}"
    and "alive (snd (OpenProcess O' pid n)) \<subseteq> alive n" and "alive (snd (GetProcessTimes O' h n)) \<subseteq> alive n"
    and "alive (CloseProcessHandle O' h n) \<subseteq> alive n" and "alive (snd (run_tasks O' spec n)) \<subseteq> alive n"
    and "cmd_spawn O' args n = (Inl e, n') \<Longrightarrow> alive n' \<subseteq> alive n"
    and "cmd_spawn O' args n = (Inr pid, n') \<Longrightarrow> alive n' \<subseteq> insert pid (alive n)"
  using assms unfolding os_documented_def by (simp_all, metis (no_types, lifting) fst_conv old.sum.simps(5) snd_conv,
      metis (no_types, lifting) fst_conv old.sum.simps(6) snd_conv)

lemma io_bind_quiet:
  assumes "\<And>x n'. m = (x, n') \<Longrightarrow> alive n' \<subseteq> A" and "\<And>x n'. alive n' \<subseteq> A \<Longrightarrow> alive (snd (f x n')) \<subseteq> A"
  shows "alive (snd (io_bind m f)) \<subseteq> A"
  using assms by (auto simp: io_bind_def split: prod.split sum.split)

lemma exchange_quiet:
  assumes "net_quiet N alive"
  shows "exchange N r n = (x, n') \<Longrightarrow> alive n' \<subseteq> alive n"
  using net_quietD(3,4) [OF assms] unfolding exchange_def io_bind_def
  by (fastforce split: prod.splits sum.splits)

lemma single_request_quiet:
  assumes "net_quiet N alive"
  shows "alive (snd (single_request N spec n)) \<subseteq> alive n"
proof -
  note bind = io_bind_quiet [where alive = alive and A = "alive n"]
  let ?req = "\<lparr>hr_method = GET, hr_uri = ls_path spec, hr_host = authority spec, hr_body = []\<rparr>"
  have finish: "alive (snd (io_bind (exchange N ?req n2) (\<lambda>status n. let n = close_connection N n in
        if is_success status then (Inr (), n) else (Inl (''readiness probe got '' @ status_text N status), n)))) \<subseteq> alive n"
    if "alive n2 \<subseteq> alive n" for n2
  proof (rule bind)
    show "alive n' \<subseteq> alive n" if "exchange N ?req n2 = (x, n')" for x n'
      using exchange_quiet [OF assms that] \<open>alive n2 \<subseteq> alive n\<close> by blast
    show "alive (snd (let n = close_connection N n' in
        if is_success x then (Inr (), n) else (Inl (''readiness probe got '' @ status_text N x), n))) \<subseteq> alive n"
      if "alive n' \<subseteq> alive n" for x n'
      using that net_quietD(5) [OF assms, of n'] by (auto simp: Let_def)
  qed
  have shake: "alive (snd (io_bind (handshake N n1) (\<lambda>_ n.
        let request = ?req in case build_request N request of
          Some e \<Rightarrow> (Inl e, n)
        | None \<Rightarrow> io_bind (exchange N request n) (\<lambda>status n. let n = close_connection N n in
            if is_success status then (Inr (), n) else (Inl (''readiness probe got '' @ status_text N status), n))))) \<subseteq> alive n"
    if "alive n1 \<subseteq> alive n" for n1
  proof (rule bind)
    show "alive n' \<subseteq> alive n" if "handshake N n1 = (x, n')" for x n'
      using net_quietD(2) [OF assms that] \<open>alive n1 \<subseteq> alive n\<close> by blast
  qed (use finish in \<open>simp add: Let_def split: option.split\<close>)
  show ?thesis unfolding single_request_def
  proof (rule bind)
    show "alive n' \<subseteq> alive n" if "tcp_connect N (authority spec) n = (x, n')" for x n'
      using net_quietD(1) [OF assms that] .
  qed (rule shake)
qed


lemma probe_loop_quiet:
  "probe_loop N probe deadline last_error n = Some z \<Longrightarrow> net_quiet N alive \<Longrightarrow> alive (snd z) \<subseteq> alive n"
proof (induction N probe deadline last_error n z rule: probe_loop.raw_induct [rotated 1, consumes 1])
  case (1 loop N probe deadline err n z)
  obtain t n1 where n1: "now N n = (t, n1)" by fastforce
  obtain x n2 where n2: "single_request N probe n1 = (x, n2)" by fastforce
  have a: "alive n1 \<subseteq> alive n" "alive n2 \<subseteq> alive n1" "alive (sleep_ms N 25 n2) \<subseteq> alive n2"
    using net_quietD(6) [OF 1(3) n1] single_request_quiet [OF 1(3), of probe n1] net_quietD(7) [OF 1(3)] by (auto simp: n2)
  show ?case
  proof (cases "t < deadline \<and> isl x")
    case True
    then obtain e where "x = Inl e" by (cases x) auto
    with True 1(2) have "loop N probe deadline (Some e) (sleep_ms N 25 n2) = Some z" by (simp add: n1 n2)
    from 1(1) [OF this 1(3)] a show ?thesis by blast
  next
    case False
    then have "z = (Inr (), n2) \<or> snd z = n1" using 1(2) n2 by (cases x) (auto simp: n1 split: if_splits)
    then show ?thesis using a by auto
  qed
qed

lemma wait_ready_leaves [leaves_rules]:
  assumes "net_quiet N alive"
  shows "leaves alive (wait_ready N options port) (\<lambda>_. {})"
proof -
  have "alive n' \<subseteq> alive n" if "wait_ready N options port n = Some (r, n')" for n r n'
  proof -
    obtain t n1 where n1: "now N n = (t, n1)" by fastforce
    with that obtain probe d err where "probe_loop N probe d err n1 = Some (r, n')"
      by (auto simp: wait_ready_def wait_until_ready_def)
    from probe_loop_quiet [OF this assms] net_quietD(6) [OF assms n1] show ?thesis by auto
  qed
  then show ?thesis unfolding leaves_def by (force split: sum.splits)
qed

lemma server_process_drop_kills:
  assumes "os_documented O' alive"
  shows "alive (server_process_drop O' p n) \<subseteq> alive n - {sp_child p}"
  using os_documentedD(3,4,7) [OF assms] unfolding server_process_drop_def process_cpu_drop_def Let_def by blast

lemma stop_poll_quiet:
  assumes "os_documented O' alive" and "net_quiet N alive"
  shows "stop_poll k O' N child n = (x, n') \<Longrightarrow> alive n' \<subseteq> alive n"
proof (induction k arbitrary: n)
  case (Suc k)
  obtain r n1 where r: "try_wait O' child n = (r, n1)" by fastforce
  have a: "alive n1 \<subseteq> alive n" "alive (sleep_ms N 50 n1) \<subseteq> alive n1"
    using os_documentedD(2) [OF assms(1), of child n] net_quietD(7) [OF assms(2)] by (simp_all add: r)
  consider "r = Inr False" | "n' = n1" using Suc.prems r by (cases r) (auto split: if_splits bool.splits)
  then show ?case
  proof cases
    case 1
    then show ?thesis using Suc.IH [of "sleep_ms N 50 n1"] Suc.prems a by (auto simp: r)
  qed (use a in simp)
qed simp

lemma server_process_stop_kills:
  assumes "os_documented O' alive" and "net_quiet N alive"
  shows "alive (server_process_stop O' N p options port n) \<subseteq> alive n - {sp_child p}"
proof -
  let ?spec = "(sweep_spec options port [] 1)\<lparr>ls_path := shutdown_path (so_path options), ls_duration := 0\<rparr>"
  obtain x n1 where x: "stop_poll 40 O' N (sp_child p) (snd (single_request N ?spec n)) = (x, n1)" by fastforce
  have "alive n1 \<subseteq> alive n"
    using stop_poll_quiet [OF assms x] single_request_quiet [OF assms(2), of ?spec n] by blast
  moreover have "alive (child_wait O' (sp_child p) (child_kill O' (sp_child p) n1)) \<subseteq> alive n1"
    using os_documentedD(3,4) [OF assms(1)] by blast
  ultimately show ?thesis
    using server_process_drop_kills [OF assms(1), of p n1]
      server_process_drop_kills [OF assms(1), of p "child_wait O' (sp_child p) (child_kill O' (sp_child p) n1)"]
    unfolding server_process_stop_def Let_def x by (cases x) auto
qed

lemma server_process_open_leaves:
  assumes os: "os_documented O' alive" and net: "net_quiet N alive" and opens: "\<And>pid n. \<not> isl (fst (OpenProcess O' pid n))"
    and run: "server_process_open O' N port options child n = Some (r, n')"
  shows "alive n' \<subseteq> (case r of Inl e \<Rightarrow> alive n - {child} | Inr p \<Rightarrow> alive n) \<and> (\<forall>p. r = Inr p \<longrightarrow> sp_child p = child)"
proof -
  note defs = server_process_open_def io_try_def io_lift_def process_cpu_open_def io_bind_def io_on_error_def
    io_return_def Let_def
  obtain h n1 where h: "OpenProcess O' child n = (Inr h, n1)"
    using opens [of child n] by (cases "OpenProcess O' child n"; cases "fst (OpenProcess O' child n)") auto
  let ?p = "\<lparr>sp_child = child, sp_cpu = \<lparr>pc_handle = h\<rparr>\<rparr>"
  have n1: "alive n1 \<subseteq> alive n" using os_documentedD(5) [OF os, of child n] by (simp add: h)
  obtain w n2 where w: "wait_ready N options port n1 = Some (w, n2)"
    using run by (cases "wait_ready N options port n1") (auto simp: defs h)
  have n2: "alive n2 \<subseteq> alive n1"
    using leavesD [OF wait_ready_leaves [OF net, of options port]] w by (cases w) force+
  have "(r, n') = (case w of Inl e \<Rightarrow> (Inl e, server_process_drop O' ?p n2) | Inr u \<Rightarrow> (Inr ?p, n2))"
    using run by (cases w) (auto simp: defs h w)
  then show ?thesis using server_process_drop_kills [OF os, of ?p n2] n1 n2 by (cases w) auto
qed

lemma server_process_spawn_leaves:
  assumes os: "os_documented O' alive" and net: "net_quiet N alive"
    and opens: "\<And>pid n. \<not> isl (fst (OpenProcess O' pid n))"
  shows "leaves alive (server_process_spawn O' N engine port options) (\<lambda>p. {sp_child p})"
  unfolding server_process_spawn_def
proof (rule leaves_try)
  show "leaves alive (io_lift (current_exe O')) (\<lambda>_. {})"
    by (rule leaves_lift) (rule os_documentedD(1) [OF os])
  fix exe
  have "alive n' \<subseteq> alive n \<union> (case r of Inl e \<Rightarrow> {} | Inr p \<Rightarrow> {sp_child p})"
    if run: "io_try (io_lift (cmd_spawn O' args)) (server_process_open O' N port options) n = Some (r, n')" for args n r n'
  proof (cases "cmd_spawn O' args n")
    case (Pair c n1)
    show ?thesis
    proof (cases c)
      case (Inl e)
      then show ?thesis using run os_documentedD(9) [OF os, of args n e n1] by (auto simp: Pair io_try_def io_lift_def)
    next
      case (Inr pid)
      then have "server_process_open O' N port options pid n1 = Some (r, n')"
        using run by (simp add: Pair io_try_def io_lift_def)
      from server_process_open_leaves [OF os net opens this] show ?thesis
        using os_documentedD(10) [OF os, of args n pid n1] by (cases r) (auto simp: Pair Inr)
    qed
  qed
  then show "leaves alive (io_try (io_lift (cmd_spawn O' (spawn_args exe engine port options)))
      (server_process_open O' N port options)) (\<lambda>p. {sp_child p})" by (simp add: leaves_def)
qed

lemma snapshot_leaves:
  assumes "os_documented O' alive" and "net_quiet N alive"
  shows "leaves alive (io_lift (snapshot O' N p)) (\<lambda>_. {})"
proof (rule leaves_lift)
  fix n
  obtain x n1 where x: "GetProcessTimes O' (pc_handle p) n = (x, n1)" by fastforce
  obtain t n2 where t: "now N n1 = (t, n2)" by fastforce
  show "alive (snd (snapshot O' N p n)) \<subseteq> alive n"
    using os_documentedD(6) [OF assms(1), of "pc_handle p" n] net_quietD(6) [OF assms(2) t]
    by (auto simp: snapshot_def io_bind_def x t split: sum.split)
qed

lemma run_load_leaves:
  assumes "os_documented O' alive"
  shows "leaves alive (io_lift (run_load O' spec)) (\<lambda>_. {})"
proof (rule leaves_lift)
  fix n
  show "alive (snd (run_load O' spec n)) \<subseteq> alive n"
    using os_documentedD(8) [OF assms, of spec n] by (auto simp: run_load_def split: prod.split)
qed

lemma measure_points_leaves:
  assumes "os_documented O' alive" and "net_quiet N alive"
  shows "leaves alive (measure_points O' N F server engine options points) (\<lambda>_. {})"
proof (induction points)
  case (Cons point points)
  have "leaves alive (measure_point O' N F server engine x spec options) (\<lambda>_. {})" for x spec
    unfolding measure_point_def Let_def using snapshot_leaves [OF assms] run_load_leaves [OF assms(1)]
    by (auto intro!: leaves_rules)
  then show ?case using Cons by (cases point) (auto intro!: leaves_rules)
qed (simp add: leaves_return)

text \<open>A sweep starts one server and is done with it on every path.\<close>

lemma sweep_server_leaves:
  assumes os: "os_documented O' alive" and net: "net_quiet N alive"
    and opens: "\<And>pid n. \<not> isl (fst (OpenProcess O' pid n))"
  shows "leaves alive (sweep_server O' N F engine port options points) (\<lambda>_. {})"
proof -
  have "alive n' \<subseteq> alive n" if run: "sweep_server O' N F engine port options points n = Some (r, n')" for n r n'
  proof -
    note spawn = leavesD [OF server_process_spawn_leaves [OF os net opens, of engine port options]]
    note points = leavesD [OF measure_points_leaves [OF os net, of F _ engine options points]]
    obtain s n1 where s: "server_process_spawn O' N engine port options n = Some (s, n1)"
      using run by (cases "server_process_spawn O' N engine port options n") (auto simp: sweep_server_def io_try_def)
    show ?thesis
    proof (cases s)
      case (Inl e)
      then show ?thesis using run spawn(1) [of n e n1] by (simp add: sweep_server_def io_try_def s)
    next
      case (Inr p)
      obtain m n2 where m: "measure_points O' N F p engine options points n1 = Some (m, n2)"
        using run by (cases "measure_points O' N F p engine options points n1")
          (auto simp: sweep_server_def io_try_def io_on_error_def s Inr)
      have "n' = server_process_drop O' p n2 \<or> n' = server_process_stop O' N p options port n2"
        using run by (cases m) (auto simp: sweep_server_def io_try_def io_on_error_def io_return_def s Inr m)
      moreover have "alive n2 \<subseteq> insert (sp_child p) (alive n)"
        using spawn(2) [of n p n1] points [of p n1 _ n2] m by (cases m) (auto simp: s Inr)
      ultimately show ?thesis
        using server_process_drop_kills [OF os, of p n2] server_process_stop_kills [OF os net, of p options port n2] by auto
    qed
  qed
  then show ?thesis unfolding leaves_def by (force split: sum.splits)
qed

lemma sweep_run_leaves:
  assumes "os_documented O' alive" and "net_quiet N alive" and "\<And>pid n. \<not> isl (fst (OpenProcess O' pid n))"
  shows "leaves alive (sweep_run O' N F options) (\<lambda>_. {})"
proof -
  note sweep = sweep_server_leaves [OF assms]
  have "leaves alive (run_engines O' N F options es) (\<lambda>_. {})" for es
  proof (induction es)
    case (Cons e es)
    then show ?case using sweep
      by (cases e) (auto simp: concurrency_sweep_def size_sweep_def Let_def intro!: leaves_rules split: sum.split)
  qed (simp add: leaves_return)
  then show ?thesis by (simp add: sweep_run_def)
qed

section \<open>The sweep returns\<close>

definition returns :: "('n, 'a) io \<Rightarrow> bool" where
  "returns m \<longleftrightarrow> (\<forall>n. m n \<noteq> None)"

named_theorems returns_rules

lemma returns_basic [returns_rules]: "returns (io_return x)" "returns (io_fail e)" "returns (io_lift f)"
  by (simp_all add: returns_def io_return_def io_fail_def io_lift_def)

lemma returns_try [returns_rules]: "returns m \<Longrightarrow> (\<And>x. returns (f x)) \<Longrightarrow> returns (io_try m f)"
  by (fastforce simp: returns_def io_try_def split: option.split sum.split)

lemma returns_on_error [returns_rules]: "returns m \<Longrightarrow> returns (io_on_error c m)"
  by (fastforce simp: returns_def io_on_error_def split: option.split sum.split)

lemma wait_until_ready_returns:
  assumes "clock_ok N T"
  shows "returns (wait_until_ready N spec timeout)"
  unfolding returns_def
proof
  fix n
  obtain t n1 where "now N n = (t, n1)" by fastforce
  moreover have "probe_loop N probe d err n1 \<noteq> None" for probe d err
    using probe_loop_returns [OF assms, of probe d err n1] by auto
  ultimately show "wait_until_ready N spec timeout n \<noteq> None"
    by (simp add: wait_until_ready_def del: not_None_eq)
qed

lemma wait_ready_returns: "clock_ok N T \<Longrightarrow> returns (wait_ready N options port)"
  unfolding wait_ready_def by (rule wait_until_ready_returns)

lemma sweep_server_returns:
  assumes "clock_ok N T"
  shows "returns (sweep_server O' N F engine port options points)"
proof -
  have "returns (measure_points O' N F server engine options points)" for server
  proof (induction points)
    case (Cons point points)
    have "returns (measure_point O' N F server engine x spec options)" for x spec
      unfolding measure_point_def Let_def by (auto intro!: returns_rules)
    then show ?case using Cons by (cases point) (auto intro!: returns_rules)
  qed (simp add: returns_rules)
  moreover have "returns (server_process_spawn O' N engine port options)"
    unfolding server_process_spawn_def server_process_open_def Let_def
    by (intro returns_rules wait_ready_returns [OF assms])
  moreover have "returns (\<lambda>n. io_return samples (f n))" for samples :: "Sample list" and f
    by (simp add: returns_def io_return_def)
  ultimately show ?thesis unfolding sweep_server_def by (intro returns_rules)
qed

lemma sweep_run_returns:
  assumes "clock_ok N T"
  shows "returns (sweep_run O' N F options)"
proof -
  note sweep = sweep_server_returns [OF assms]
  have "returns (run_engines O' N F options es)" for es
  proof (induction es)
    case (Cons e es)
    then show ?case using sweep
      by (cases e) (auto simp: concurrency_sweep_def size_sweep_def Let_def intro!: returns_rules split: sum.split)
  qed (simp add: returns_rules)
  then show ?thesis by (simp add: sweep_run_def)
qed

section \<open>Properties\<close>


text \<open>An environment with a clock and a list of running children; a child exits when it is killed.\<close>

definition lab_net :: "(nat \<times> u32 list) net" where
  "lab_net = \<lparr>tcp_connect = (\<lambda>_ n. (Inr (), n)), set_nodelay = (\<lambda>n. (Inr (), n)), handshake = (\<lambda>n. (Inr (), n)),
     build_request = (\<lambda>_. None), send_request = (\<lambda>_ n. (Inr 200, (fst n + 1, snd n))), collect_body = (\<lambda>n. (Inr (), n)),
     close_connection = (\<lambda>n. n), now = (\<lambda>n. (fst n, n)), sleep_ms = (\<lambda>k n. (fst n + k, snd n)), status_text = decimal\<rparr>"

definition lab_os :: "(nat \<times> u32 list) os" where
  "lab_os = \<lparr>current_exe = (\<lambda>n. (Inr ''httpbench.exe'', n)), cmd_spawn = (\<lambda>_ n. (Inr 42, (fst n, 42 # snd n))),
     try_wait = (\<lambda>_ n. (Inr False, n)), child_kill = (\<lambda>p n. (fst n, removeAll p (snd n))), child_wait = (\<lambda>p n. (fst n, removeAll p (snd n))),
     OpenProcess = (\<lambda>_ n. (Inr 7, n)),
     GetProcessTimes = (\<lambda>_ n. (Inr (\<lparr>dwLowDateTime = 0, dwHighDateTime = 0\<rparr>, \<lparr>dwLowDateTime = 0, dwHighDateTime = 0\<rparr>), n)),
     CloseProcessHandle = (\<lambda>_ n. n), run_tasks = (\<lambda>_ n. ((\<lambda>_. Joined_Ok [1000], 5), n))\<rparr>"

definition lab_options :: SweepOptions where
  "lab_options = \<lparr>so_ports = [8080, 8081], so_path = ''/bench/'', so_duration = 3, so_warmup = 1, so_connections = [1, 2],
     so_sizes = [1024], so_size_sweep_connections = 32, so_concurrency_sweep_bytes = 0, so_out_dir = ''charts'', so_kernel_cache = False\<rparr>"

lemma lab_ok:
  "clock_ok lab_net fst" "os_documented lab_os (\<lambda>n. set (snd n))" "net_quiet lab_net (\<lambda>n. set (snd n))"
  by (auto simp: clock_ok_def os_documented_def net_quiet_def lab_net_def lab_os_def exchange_def single_request_def
      io_bind_def is_success_def Let_def)


text \<open>
  The hypothesis that a child can be opened is needed: when \<open>OpenProcess\<close> fails after the child was started, \<open>spawn\<close> reports
  the error in just the state it finds, without a kill or a wait, so the child is left running.
\<close>

lemma spawn_orphans_child:
  assumes "current_exe O' n = (Inr exe, n1)" and "cmd_spawn O' (spawn_args exe engine tcp_port options) n1 = (Inr pid, n2)"
    and "OpenProcess O' pid n2 = (Inl e, n3)"
  shows "server_process_spawn O' N engine tcp_port options n = Some (Inl e, n3)"
  using assms
  by (auto simp: server_process_spawn_def server_process_open_def process_cpu_open_def io_try_def io_lift_def io_bind_def)

lemma payload_as_blocks: "payload n = take n (payload_blocks (div_ceil n 8) 0x2545F4914F6CDD1D)"
  by (simp add: payload_def payload_fill_blocks)

lemma payload_length [simp]: "length (payload n) = n"
  using div_ceil_mult_ge [of 8 n] by (simp add: payload_as_blocks)

text \<open>
  Payloads are reproducible and never degenerate.  A payload has exactly the requested length, a shorter
  one is a prefix of every longer one, so that all runs and all sizes send the same bytes, and no aligned block of eight
  bytes is zero: the generator never reaches the state it could not leave.
\<close>

lemma payload_reproducible:
  assumes "m \<le> n" and "8 * i + 8 \<le> n"
  shows "length (payload n) = n \<and> take m (payload n) = payload m \<and>
    take 8 (drop (8 * i) (payload n)) \<noteq> replicate 8 0"
proof -
  let ?s = "0x2545F4914F6CDD1D :: u64"
  let ?k = "\<lambda>n. div_ceil n 8"
  note pay = payload_as_blocks
  have fits: "x \<le> 8 * ?k x" for x using div_ceil_mult_ge [of 8 x] by simp
  have "?k m \<le> ?k n" using assms(1) by (simp add: div_ceil_def div_le_mono)
  have "payload m = take m (take (8 * ?k m) (payload_blocks (?k n) ?s))"
    using payload_blocks_prefix [OF \<open>?k m \<le> ?k n\<close>] by (simp add: pay)
  also have "\<dots> = take m (payload n)" using assms(1) fits [of m] by (simp add: pay min_def)
  finally have prefix: "take m (payload n) = payload m" by simp
  have "i < ?k n" using assms(2) by (simp add: div_ceil_def)
  from payload_blocks_nth [OF this, of ?s]
  have "take 8 (drop (8 * i) (payload n)) = to_le_bytes ((xorshift ^^ Suc i) ?s)"
    using assms(2) by (simp add: pay drop_take)
  moreover have "(xorshift ^^ Suc i) ?s \<noteq> 0" by (rule xorshift_iterate_nonzero) simp
  ultimately have "take 8 (drop (8 * i) (payload n)) \<noteq> replicate 8 0" using to_le_bytes_zero by metis
  then show ?thesis using prefix by simp
qed

lemma best_engines:
  "best samples metric =
     (case max_by_key metric (filter (\<lambda>s. sm_engine s = Engine_Httpsys) samples) of None \<Rightarrow> [] | Some s \<Rightarrow> [s]) @
     (case max_by_key metric (filter (\<lambda>s. sm_engine s = Engine_Axum) samples) of None \<Rightarrow> [] | Some s \<Rightarrow> [s])"
  by (simp add: best_def ENGINES_def List.map_filter_simps split: option.split)

lemma best_Nil_iff: "best samples metric = [] \<longleftrightarrow> samples = []"
proof
  assume "best samples metric = []"
  then have "\<forall>s \<in> set samples. sm_engine s \<noteq> Engine_Httpsys \<and> sm_engine s \<noteq> Engine_Axum"
    by (auto simp: best_engines max_by_key_None filter_empty_conv split: option.splits)
  then show "samples = []" by (cases samples) (use Engine.exhaust in auto)
qed (simp add: best_engines)

lemma compare_None_iff: "compare F title samples describe ratio = None \<longleftrightarrow> samples = []"
  by (cases samples) (auto simp: compare_def Let_def split: list.split)

lemma print_all_None: "print_all parts = None \<longleftrightarrow> None \<in> set parts"
  by (induction parts rule: print_all.induct) auto

lemma report_None_iff: "report F concurrency sizes = None \<longleftrightarrow> concurrency = [] \<or> sizes = []"
  unfolding report_def print_all_None list.set insert_iff eq_commute [of None] compare_None_iff best_Nil_iff
  by auto

text \<open>
  C35: The summary compares the best samples, and panics without any.  For each engine that has samples the summary
  takes one of them, in the order of the engines, and no other sample of that engine exceeds it in the total
  order of floats, NaN included; the report fails, by a slice out of bounds, exactly when one of the two sweeps yielded no
  sample, as with an empty list of connections or sizes.
\<close>

theorem summary_compares_best:
  "(\<forall>s \<in> set samples. \<exists>b \<in> set (best samples metric). sm_engine b = sm_engine s \<and> metric s \<le> metric b) \<and>
   set (best samples metric) \<subseteq> set samples \<and>
   map sm_engine (best samples metric) = filter (\<lambda>e. e \<in> sm_engine ` set samples) ENGINES \<and>
   (report F concurrency sizes = None \<longleftrightarrow> concurrency = [] \<or> sizes = [])"
proof (intro conjI)
  let ?of = "\<lambda>e. filter (\<lambda>s. sm_engine s = e) samples"
  have found: "\<exists>b. max_by_key metric (?of e) = Some b \<and> b \<in> set samples \<and> sm_engine b = e \<and>
      (\<forall>s \<in> set samples. sm_engine s = e \<longrightarrow> metric s \<le> metric b)" if "e \<in> sm_engine ` set samples" for e
  proof -
    from that have "?of e \<noteq> []" by (auto simp: filter_empty_conv)
    then obtain b where b: "max_by_key metric (?of e) = Some b" by (cases "max_by_key metric (?of e)") (auto simp: max_by_key_None)
    from max_by_key_Some [OF b] b show ?thesis by auto
  qed
  have missing: "max_by_key metric (?of e) = None" if "e \<notin> sm_engine ` set samples" for e
    using that by (auto simp: max_by_key_None filter_empty_conv)
  show "\<forall>s \<in> set samples. \<exists>b \<in> set (best samples metric). sm_engine b = sm_engine s \<and> metric s \<le> metric b"
  proof
    fix s
    assume s: "s \<in> set samples"
    with found [of "sm_engine s"] obtain b where "max_by_key metric (?of (sm_engine s)) = Some b"
      "sm_engine b = sm_engine s" "metric s \<le> metric b" by blast
    then show "\<exists>b \<in> set (best samples metric). sm_engine b = sm_engine s \<and> metric s \<le> metric b"
      by (cases "sm_engine s") (auto simp: best_engines split: option.split)
  qed
  have "b \<in> set samples" if "max_by_key metric (?of e) = Some b" for e b
    using max_by_key_Some(1) [OF that] by simp
  then show "set (best samples metric) \<subseteq> set samples"
    by (auto simp: best_engines split: option.splits)
  show "map sm_engine (best samples metric) = filter (\<lambda>e. e \<in> sm_engine ` set samples) ENGINES"
    using found [of Engine_Httpsys] found [of Engine_Axum] missing [of Engine_Httpsys] missing [of Engine_Axum]
    by (auto simp: best_engines ENGINES_def)
  show "report F concurrency sizes = None \<longleftrightarrow> concurrency = [] \<or> sizes = []"
    by (rule report_None_iff)
qed

definition lab_sample :: "Engine \<Rightarrow> f64 \<Rightarrow> Sample" where
  "lab_sample engine rps = \<lparr>sm_engine = engine, sm_x = f_1, sm_body_bytes = 1024, sm_connections = 1, sm_requests = 100,
     sm_rps = rps, sm_mean_ms = f_1, sm_p50_ms = f_1, sm_p99_ms = f_1, sm_cores = f_1, sm_cpu_us_per_request = f_10\<rparr>"

theorem summary_compares_best_witness:
  "let samples = [lab_sample Engine_Axum f_10, lab_sample Engine_Httpsys f_10, lab_sample Engine_Httpsys f_100] in
   (\<exists>b \<in> set (best samples sm_rps). sm_engine b = Engine_Httpsys \<and> f_100 \<le> sm_rps b) \<and>
   map sm_engine (best samples sm_rps) = ENGINES \<and> (\<forall>F. report F [] samples = None \<and> report F samples samples \<noteq> None)"
proof -
  let ?s = "[lab_sample Engine_Axum f_10, lab_sample Engine_Httpsys f_10, lab_sample Engine_Httpsys f_100]"
  note best = summary_compares_best [of ?s sm_rps]
  have "\<exists>b \<in> set (best ?s sm_rps). sm_engine b = sm_engine (lab_sample Engine_Httpsys f_100) \<and>
      sm_rps (lab_sample Engine_Httpsys f_100) \<le> sm_rps b"
    using best by simp
  moreover have "map sm_engine (best ?s sm_rps) = ENGINES"
    using best by (simp add: ENGINES_def lab_sample_def)
  moreover have "report F [] ?s = None \<and> report F ?s ?s \<noteq> None" for F
    using summary_compares_best [of ?s sm_rps F "[]" ?s] summary_compares_best [of ?s sm_rps F ?s ?s] by simp
  ultimately show ?thesis by (simp add: Let_def lab_sample_def)
qed

end
