(* ===== verification/Bench_Chart.thy ===== *)
theory Bench_Chart
  imports Bench_Sweep
begin

text \<open>
  The charts of the benchmark (\<open>tools/httpbench/src/chart.rs\<close> and \<open>write_charts\<close> of \<open>sweep.rs\<close>): which series each
  chart shows and the bounds of its axes.  The drawing itself is a call of the plotting crate.
\<close>

section \<open>Bounds\<close>

record Chart =
  ch_caption :: string
  ch_subtitle :: string
  ch_x_desc :: string
  ch_y_desc :: string
  ch_y_log :: bool
  ch_x_format :: "f64 \<Rightarrow> string"
  ch_y_format :: "f64 \<Rightarrow> string"
  ch_series :: "Series list"

definition f_2 :: f64 where "f_2 = F64 0x4000000000000000"

definition f_1_35 :: f64 where "f_1_35 = F64 0x3FF599999999999A"

definition f_1_08 :: f64 where "f_1_08 = F64 0x3FF147AE147AE148"

definition f_0_08 :: f64 where "f_0_08 = F64 0x3FB47AE147AE147B"

definition f_EPSILON :: f64 where "f_EPSILON = F64 0x3CB0000000000000"

definition f_abs :: "f64 \<Rightarrow> f64" where
  "f_abs x = F64 (f64_magnitude x)"

definition pad :: "float_env \<Rightarrow> f64 \<Rightarrow> f64 \<Rightarrow> bool \<Rightarrow> f64 \<Rightarrow> f64 \<times> f64" where
  "pad F lo hi logarithmic fallback =
     (if \<not> is_finite lo \<or> \<not> is_finite hi then (f_0, fallback)
      else if logarithmic then
        (let lo = f_max lo f_MIN_POSITIVE; hi = f_max hi (fp_mul F lo f_2)
         in (fp_div F lo f_1_35, fp_mul F hi f_1_35))
      else if f_lt (f_abs (fp_sub F hi lo)) f_EPSILON then (fp_sub F lo fallback, fp_add F hi fallback)
      else (let margin = fp_mul F (fp_sub F hi lo) f_0_08 in (fp_sub F lo margin, fp_add F hi margin)))"

definition chart_points :: "Chart \<Rightarrow> (f64 \<times> f64) list" where
  "chart_points chart = concat (map se_points (ch_series chart))"

definition bounds :: "float_env \<Rightarrow> Chart \<Rightarrow> (f64 \<times> f64 \<times> f64 \<times> f64) bench_result" where
  "bounds F chart =
     (let points = chart_points chart in
      if points = [] then Inl (''chart '' @ [CHR 0x27] @ ch_caption chart @ [CHR 0x27] @ '' has no data points'')
      else
        let x_min = foldl f_min f_INFINITY (map fst points);
            x_max = foldl f_max f_NEG_INFINITY (map fst points);
            y_max = foldl f_max f_NEG_INFINITY (map snd points);
            y_min = foldl f_min f_INFINITY (map snd points);
            (x_min, x_max) = (fp_div F x_min f_1_35, fp_mul F x_max f_1_35);
            (y_min, y_max) = (if ch_y_log chart then pad F y_min y_max True f_1 else (f_0, fp_mul F y_max f_1_08))
        in Inr (x_min, x_max, y_min, y_max))"

section \<open>The charts of a sweep\<close>

definition write_charts :: "float_env \<Rightarrow> string \<Rightarrow> Sample list \<Rightarrow> Sample list \<Rightarrow> Chart list" where
  "write_charts F machine concurrency sizes =
     [\<lparr>ch_caption = ''Latency vs concurrent requests'', ch_subtitle = ''solid = median, dashed = p99. '' @ machine,
       ch_x_desc = ''Concurrent requests'', ch_y_desc = ''Latency'', ch_y_log = True,
       ch_x_format = fmt_count F, ch_y_format = fmt_millis F,
       ch_series = engine_series concurrency sm_p50_ms ''p50'' False @ engine_series concurrency sm_p99_ms ''p99'' True\<rparr>,
      \<lparr>ch_caption = ''Server CPU vs concurrent requests'',
       ch_subtitle = ''CPU cores burned by the server process alone. '' @ machine,
       ch_x_desc = ''Concurrent requests'', ch_y_desc = ''CPU cores in use'', ch_y_log = False,
       ch_x_format = fmt_count F, ch_y_format = fmt_cores F, ch_series = engine_series concurrency sm_cores '''' False\<rparr>,
      \<lparr>ch_caption = ''Throughput vs concurrent requests'', ch_subtitle = machine,
       ch_x_desc = ''Concurrent requests'', ch_y_desc = ''Requests per second'', ch_y_log = False,
       ch_x_format = fmt_count F, ch_y_format = fmt_rate F, ch_series = engine_series concurrency sm_rps '''' False\<rparr>,
      \<lparr>ch_caption = ''Latency vs request size'', ch_subtitle = ''solid = mean, dashed = p99. '' @ machine,
       ch_x_desc = ''Request body size'', ch_y_desc = ''Latency'', ch_y_log = True,
       ch_x_format = fmt_bytes F, ch_y_format = fmt_millis F,
       ch_series = engine_series sizes sm_mean_ms ''mean'' False @ engine_series sizes sm_p99_ms ''p99'' True\<rparr>,
      \<lparr>ch_caption = ''Server CPU vs request size'',
       ch_subtitle = ''CPU cores burned by the server process alone. '' @ machine,
       ch_x_desc = ''Request body size'', ch_y_desc = ''CPU cores in use'', ch_y_log = False,
       ch_x_format = fmt_bytes F, ch_y_format = fmt_cores F, ch_series = engine_series sizes sm_cores '''' False\<rparr>,
      \<lparr>ch_caption = ''Ingest throughput vs request size'', ch_subtitle = machine,
       ch_x_desc = ''Request body size'', ch_y_desc = ''MiB/s received'', ch_y_log = False,
       ch_x_format = fmt_bytes F, ch_y_format = fmt_mib_per_second F,
       ch_series = engine_series sizes (sample_mib_per_second F) '''' False\<rparr>]"

section \<open>Every chart has data\<close>

lemma series_for_points:
  "mset (series_for samples engine val) =
     image_mset (\<lambda>s. (sm_x s, val s)) (filter_mset (\<lambda>s. sm_engine s = engine) (mset samples))"
  "sorted (map fst (series_for samples engine val))"
  by (simp_all add: series_for_def mset_filter)

lemma engine_series_points:
  "concat (map se_points (engine_series samples val suffix_text dashed)) = [] \<longleftrightarrow> samples = []"
proof -
  have "series_for samples e val = [] \<longleftrightarrow> filter (\<lambda>s. sm_engine s = e) samples = []" for e
    by (simp add: series_for_def flip: length_0_conv)
  then have "series_for samples e val = [] \<longleftrightarrow> (\<forall>s \<in> set samples. sm_engine s \<noteq> e)" for e
    by (simp add: filter_empty_conv)
  moreover have "sm_engine s = Engine_Httpsys \<or> sm_engine s = Engine_Axum" for s :: Sample
    by (cases "sm_engine s") auto
  ultimately have "samples = []" if "\<forall>e \<in> {Engine_Httpsys, Engine_Axum}. series_for samples e val = []"
    using that by (cases samples) auto
  moreover have "series_for [] e val = []" for e by (simp add: series_for_def)
  ultimately show ?thesis by (auto simp: engine_series_def ENGINES_def)
qed

text \<open>When both sweeps have samples, no chart is refused for a lack of data, and its bounds are defined.\<close>

lemma charts_have_data:
  assumes "concurrency \<noteq> []" and "sizes \<noteq> []" and "chart \<in> set (write_charts F machine concurrency sizes)"
  shows "\<exists>b. bounds F chart = Inr b"
proof -
  have "chart_points chart \<noteq> []"
    using assms(3) assms(1,2) unfolding write_charts_def chart_points_def
    by (auto simp: engine_series_points simp del: concat_eq_Nil_conv)
  then show ?thesis by (simp add: bounds_def Let_def split: prod.split)
qed

end
