(* ===== verification/Bench_Report.thy ===== *)
theory Bench_Report
  imports Bench_Chart
begin

text \<open>
  What a sweep leaves behind (\<open>Chart::render\<close> and \<open>Chart::draw\<close> of \<open>tools/httpbench/src/chart.rs\<close>, \<open>run\<close>,
  \<open>write_csv\<close> and \<open>machine_summary\<close> of \<open>sweep.rs\<close>): the directory, the summary, the CSV file and the charts.
  The file system, the runtime and the plotting crate are one parameter, which is told every call in order and answers
  with an error or not; the calls made are the log of the model.
\<close>

section \<open>Effects\<close>

type_synonym rgb = "u8 \<times> u8 \<times> u8"

datatype axis = Log_Axis "f64 option" f64 f64 | Linear_Axis f64 f64

text \<open>The calls to the plotting crate, with the data they carry; line widths, marker sizes and fonts as in the code.\<close>

datatype draw_call =
    Fill rgb
  | Draw_Text string nat bool rgb "nat \<times> nat"
  | Build_Cartesian "nat \<times> nat \<times> nat \<times> nat" axis axis
  | Draw_Mesh string string "f64 \<Rightarrow> string" "f64 \<Rightarrow> string" nat nat
  | Draw_Dashed "(f64 \<times> f64) list" nat nat rgb nat
  | Draw_Line "(f64 \<times> f64) list" rgb nat
  | Draw_Circles "(f64 \<times> f64) list" nat rgb string
  | Draw_Labels
  | Present

datatype effect = Create_Dir string | Build_Runtime | Write_File string string | Draw string draw_call | Print string

type_synonym outside = "effect list \<Rightarrow> effect \<Rightarrow> string option"

definition emit :: "outside \<Rightarrow> effect \<Rightarrow> effect list \<Rightarrow> unit bench_result \<times> effect list" where
  "emit E x log = (case E log x of None \<Rightarrow> Inr () | Some e \<Rightarrow> Inl e, log @ [x])"

text \<open>Calls in sequence, each followed by \<open>?\<close>.\<close>

fun emit_all :: "outside \<Rightarrow> effect list \<Rightarrow> effect list \<Rightarrow> unit bench_result \<times> effect list" where
  "emit_all E [] log = (Inr (), log)"
| "emit_all E (x # xs) log = (case emit E x log of (Inl e, log) \<Rightarrow> (Inl e, log) | (Inr u, log) \<Rightarrow> emit_all E xs log)"

section \<open>Drawing a chart\<close>

definition WHITE :: rgb where "WHITE = (255, 255, 255)"

definition BLACK :: rgb where "BLACK = (0, 0, 0)"

definition draw_series :: "Series \<Rightarrow> draw_call list" where
  "draw_series series =
     [if se_dashed series then Draw_Dashed (se_points series) 7 5 (se_color series) 2
      else Draw_Line (se_points series) (se_color series) 3,
      Draw_Circles (se_points series) 4 (se_color series) (se_name series)]"

definition draw :: "Chart \<Rightarrow> axis \<Rightarrow> axis \<Rightarrow> draw_call list" where
  "draw chart x y =
     [Build_Cartesian (76, 24, 20, 20) x y,
      Draw_Mesh (ch_x_desc chart) (ch_y_desc chart) (ch_x_format chart) (ch_y_format chart) 9 8] @
     concat (map draw_series (ch_series chart)) @ [Draw_Labels]"

definition render_calls :: "Chart \<Rightarrow> f64 \<times> f64 \<times> f64 \<times> f64 \<Rightarrow> draw_call list" where
  "render_calls chart =
     (\<lambda>(x_min, x_max, y_min, y_max).
       [Fill WHITE, Draw_Text (ch_caption chart) 24 True BLACK (20, 16),
        Draw_Text (ch_subtitle chart) 13 False (110, 110, 110) (20, 48)] @
       draw chart (Log_Axis (Some f_2) x_min x_max)
         (if ch_y_log chart then Log_Axis None y_min y_max else Linear_Axis y_min y_max) @
       [Present])"

definition render :: "outside \<Rightarrow> float_env \<Rightarrow> Chart \<Rightarrow> string \<Rightarrow> effect list \<Rightarrow> unit bench_result \<times> effect list" where
  "render E F chart path log =
     (case bounds F chart of Inl e \<Rightarrow> (Inl e, log) | Inr b \<Rightarrow> emit_all E (map (Draw path) (render_calls chart b)) log)"

fun render_all :: "outside \<Rightarrow> float_env \<Rightarrow> (Chart \<times> string) list \<Rightarrow> effect list \<Rightarrow> unit bench_result \<times> effect list" where
  "render_all E F [] log = (Inr (), log)"
| "render_all E F ((chart, path) # rest) log =
     (case render E F chart path log of (Inl e, log) \<Rightarrow> (Inl e, log) | (Inr u, log) \<Rightarrow> render_all E F rest log)"

section \<open>The files of a sweep\<close>

definition machine_summary :: "nat option \<Rightarrow> string \<Rightarrow> string" where
  "machine_summary parallelism arch =
     decimal (case parallelism of Some n \<Rightarrow> n | None \<Rightarrow> 0) @ '' logical cores, loopback, '' @ arch"

text \<open>\<open>Path::join\<close> of a relative file name, on Windows.\<close>

definition path_join :: "string \<Rightarrow> string \<Rightarrow> string" where
  "path_join dir name =
     (if dir = [] \<or> last dir \<in> {CHR 0x5C, CHR ''/''} then dir @ name else dir @ CHR 0x5C # name)"

definition chart_files :: "string list" where
  "chart_files = [''latency-vs-concurrency.svg'', ''cpu-vs-concurrency.svg'', ''throughput-vs-concurrency.svg'',
     ''latency-vs-size.svg'', ''cpu-vs-size.svg'', ''throughput-vs-size.svg'']"

definition render_charts ::
  "outside \<Rightarrow> float_env \<Rightarrow> string \<Rightarrow> string \<Rightarrow> Sample list \<Rightarrow> Sample list \<Rightarrow> effect list \<Rightarrow> unit bench_result \<times> effect list" where
  "render_charts E F machine dir concurrency sizes =
     render_all E F (zip (write_charts F machine concurrency sizes) (map (path_join dir) chart_files))"

definition write_csv ::
  "outside \<Rightarrow> float_env \<Rightarrow> string \<Rightarrow> Sample list \<Rightarrow> Sample list \<Rightarrow> effect list \<Rightarrow> unit bench_result \<times> effect list" where
  "write_csv E F path concurrency sizes = emit E (Write_File path (csv_text F concurrency sizes))"

text \<open>The environment of the measurements beside the log of the effects.\<close>

definition on_world :: "('n, 'a) io \<Rightarrow> ('n \<times> effect list, 'a) io" where
  "on_world m = (\<lambda>(n, log). map_option (\<lambda>(r, n). (r, n, log)) (m n))"

definition on_log :: "(effect list \<Rightarrow> 'a bench_result \<times> effect list) \<Rightarrow> ('n \<times> effect list, 'a) io" where
  "on_log m = (\<lambda>(n, log). case m log of (r, log) \<Rightarrow> Some (r, n, log))"

definition print_lines :: "string list \<Rightarrow> effect list \<Rightarrow> unit bench_result \<times> effect list" where
  "print_lines ls log = (Inr (), log @ map Print ls)"

text \<open>\<open>run\<close> of the sweep, first what follows the measurements; \<open>None\<close> is the panic of the summary, or a measurement that
  does not come back.\<close>

definition sweep_results ::
  "float_env \<Rightarrow> outside \<Rightarrow> nat option \<Rightarrow> string \<Rightarrow> SweepOptions \<Rightarrow> Sample list \<Rightarrow> Sample list \<Rightarrow> ('n \<times> effect list, unit) io" where
  "sweep_results F E parallelism arch options concurrency sizes =
     (case report F concurrency sizes of
        None \<Rightarrow> (\<lambda>_. None)
      | Some ls \<Rightarrow>
          io_try (on_log (print_lines ls)) (\<lambda>_.
          io_try (on_log (write_csv E F (path_join (so_out_dir options) ''results.csv'') concurrency sizes)) (\<lambda>_.
          io_try (on_log (render_charts E F (machine_summary parallelism arch) (so_out_dir options) concurrency sizes)) (\<lambda>_.
            on_log (print_lines ['''', ''Charts and results.csv written to '' @ so_out_dir options])))))"

definition sweep_main ::
  "'n os \<Rightarrow> 'n net \<Rightarrow> float_env \<Rightarrow> outside \<Rightarrow> nat option \<Rightarrow> string \<Rightarrow> SweepOptions \<Rightarrow> ('n \<times> effect list, unit) io" where
  "sweep_main O' N F E parallelism arch options =
     io_try (on_log (emit_all E [Create_Dir (so_out_dir options), Build_Runtime])) (\<lambda>_.
     io_try (on_world (sweep_run O' N F options)) (\<lambda>(concurrency, sizes).
       sweep_results F E parallelism arch options concurrency sizes))"

section \<open>Effects stop at the first error\<close>

text \<open>The last call of the log is the one that failed.\<close>

definition stopped_by :: "outside \<Rightarrow> string \<Rightarrow> effect list \<Rightarrow> bool" where
  "stopped_by E e log \<longleftrightarrow> log \<noteq> [] \<and> E (butlast log) (last log) = Some e"

lemma emit_outcome:
  "emit E x log = (r, log') \<Longrightarrow> (case r of Inr u \<Rightarrow> log' = log @ [x] | Inl e \<Rightarrow> stopped_by E e log')"
  by (auto simp: emit_def stopped_by_def split: option.splits)

lemma emit_all_outcome:
  "emit_all E xs log = (r, log') \<Longrightarrow> (case r of Inr u \<Rightarrow> log' = log @ xs | Inl e \<Rightarrow> stopped_by E e log')"
proof (induction xs arbitrary: log)
  case (Cons x xs)
  obtain r1 log1 where e: "emit E x log = (r1, log1)" by fastforce
  then show ?case using emit_outcome [OF e] Cons.prems Cons.IH [of log1] by (cases r1; cases r) auto
qed (cases r; auto)

definition chart_effects :: "float_env \<Rightarrow> (Chart \<times> string) list \<Rightarrow> effect list" where
  "chart_effects F cs = concat (map (\<lambda>(chart, path). map (Draw path) (render_calls chart (projr (bounds F chart)))) cs)"

lemma render_all_outcome:
  "\<forall>(chart, path) \<in> set cs. \<exists>b. bounds F chart = Inr b \<Longrightarrow> render_all E F cs log = (r, log') \<Longrightarrow>
     (case r of Inr u \<Rightarrow> log' = log @ chart_effects F cs | Inl e \<Rightarrow> stopped_by E e log')"
proof (induction cs arbitrary: log)
  case (Cons c cs)
  obtain chart path b where c: "c = (chart, path)" "bounds F chart = Inr b" using Cons.prems(1) by (cases c) auto
  obtain r1 log1 where e: "emit_all E (map (Draw path) (render_calls chart b)) log = (r1, log1)" by fastforce
  show ?case using emit_all_outcome [OF e] Cons.prems Cons.IH [of log1] c e
    by (cases r1; cases r) (auto simp: render_def chart_effects_def)
qed (cases r; auto simp: chart_effects_def)

text \<open>A chart that is drawn shows every point of every series, as a line in the style of the series and as markers.\<close>

lemma render_calls_points:
  "s \<in> set (ch_series chart) \<Longrightarrow>
     Draw_Circles (se_points s) 4 (se_color s) (se_name s) \<in> set (render_calls chart b) \<and>
     (if se_dashed s then Draw_Dashed (se_points s) 7 5 (se_color s) 2 else Draw_Line (se_points s) (se_color s) 3)
       \<in> set (render_calls chart b)"
  by (cases b) (auto simp: render_calls_def draw_def draw_series_def)

lemma render_calls_present: "Present \<in> set (render_calls chart b)"
  by (cases b) (simp add: render_calls_def)

section \<open>Every engine is measured at every point\<close>

definition yields :: "('n, 'a) io \<Rightarrow> ('a \<Rightarrow> bool) \<Rightarrow> bool" where
  "yields m P \<longleftrightarrow> (\<forall>n x n'. m n = Some (Inr x, n') \<longrightarrow> P x)"

lemma yieldsD: "yields m P \<Longrightarrow> m n = Some (Inr x, n') \<Longrightarrow> P x"
  by (auto simp: yields_def)

lemma yields_any: "yields m (\<lambda>_. True)"
  by (simp add: yields_def)

lemma yields_return: "P x \<Longrightarrow> yields (io_return x) P"
  by (simp add: yields_def io_return_def)

lemma yields_fail: "yields (io_fail e) P"
  by (simp add: yields_def io_fail_def)

lemma yields_try: "yields m P \<Longrightarrow> (\<And>x. P x \<Longrightarrow> yields (f x) Q) \<Longrightarrow> yields (io_try m f) Q"
  by (auto simp: yields_def io_try_def split: option.splits sum.splits prod.splits) blast

lemma yields_on_error: "yields m P \<Longrightarrow> yields (io_on_error cleanup m) P"
  by (auto simp: yields_def io_on_error_def split: option.splits sum.splits prod.splits)

lemma yields_then_world: "P x \<Longrightarrow> yields (\<lambda>n. io_return x (g n)) P"
  by (simp add: yields_def io_return_def)

text \<open>What a sample says of the run it comes from.\<close>

abbreviation sample_key :: "Sample \<Rightarrow> Engine \<times> f64 \<times> nat \<times> nat" where
  "sample_key s \<equiv> (sm_engine s, sm_x s, sm_connections s, sm_body_bytes s)"

abbreviation point_key :: "Engine \<Rightarrow> f64 \<times> LoadSpec \<Rightarrow> Engine \<times> f64 \<times> nat \<times> nat" where
  "point_key engine p \<equiv> (engine, fst p, ls_connections (snd p), length (ls_body (snd p)))"

lemma measure_point_key:
  "yields (measure_point O' N F server engine x spec options) (\<lambda>s. sample_key s = point_key engine (x, spec))"
  unfolding measure_point_def Let_def
  by (intro yields_try [OF yields_any] yields_return) simp

lemma measure_points_keys:
  "yields (measure_points O' N F server engine options points) (\<lambda>ss. map sample_key ss = map (point_key engine) points)"
proof (induction points)
  case Nil
  then show ?case by (simp add: yields_return)
next
  case (Cons p points)
  obtain x spec where p: "p = (x, spec)" by (cases p)
  show ?case unfolding p measure_points.simps
    by (intro yields_try [OF measure_point_key] yields_try [OF Cons.IH] yields_return) simp
qed

lemma sweep_server_keys:
  "yields (sweep_server O' N F engine port options points) (\<lambda>ss. map sample_key ss = map (point_key engine) points)"
  unfolding sweep_server_def
  by (intro yields_try [OF yields_any] yields_try [OF yields_on_error [OF measure_points_keys]] yields_then_world)

definition concurrency_keys :: "float_env \<Rightarrow> SweepOptions \<Rightarrow> Engine \<Rightarrow> (Engine \<times> f64 \<times> nat \<times> nat) list" where
  "concurrency_keys F options e = map (\<lambda>c. (e, fp_of_nat F c, c, so_concurrency_sweep_bytes options)) (so_connections options)"

definition size_keys :: "float_env \<Rightarrow> SweepOptions \<Rightarrow> Engine \<Rightarrow> (Engine \<times> f64 \<times> nat \<times> nat) list" where
  "size_keys F options e = map (\<lambda>z. (e, fp_of_nat F z, so_size_sweep_connections options, z)) (so_sizes options)"

lemma concurrency_sweep_keys:
  "yields (concurrency_sweep O' N F engine port options) (\<lambda>ss. map sample_key ss = concurrency_keys F options engine)"
  using sweep_server_keys [of O' N F engine port options]
  by (simp add: concurrency_sweep_def Let_def concurrency_keys_def comp_def sweep_spec_def payload_length yields_def)

lemma size_sweep_keys:
  "yields (size_sweep O' N F engine port options) (\<lambda>ss. map sample_key ss = size_keys F options engine)"
  using sweep_server_keys [of O' N F engine port options]
  by (simp add: size_sweep_def size_keys_def comp_def sweep_spec_def payload_length yields_def)

lemma run_engines_keys:
  "yields (run_engines O' N F options es)
     (\<lambda>(c, s). map sample_key c = concat (map (concurrency_keys F options) (map snd es)) \<and>
               map sample_key s = concat (map (size_keys F options) (map snd es)))"
proof (induction es)
  case Nil
  show ?case by (simp add: yields_return)
next
  case (Cons e es)
  obtain i engine where e: "e = (i, engine)" by (cases e)
  show ?case
  proof (cases "port_for options i")
    case (Inl x)
    then show ?thesis by (simp add: e yields_fail)
  next
    case (Inr p)
    show ?thesis unfolding e run_engines.simps Inr sum.case
      by (intro yields_try [OF concurrency_sweep_keys] yields_try [OF size_sweep_keys] yields_try [OF Cons.IH])
        (auto intro: yields_return)
  qed
qed

lemma sweep_run_keys:
  assumes "sweep_run O' N F options n = Some (Inr (c, s), n')"
  shows "map sample_key c = concat (map (concurrency_keys F options) ENGINES)"
    and "map sample_key s = concat (map (size_keys F options) ENGINES)"
  using yieldsD [OF run_engines_keys assms [unfolded sweep_run_def]] by simp_all

section \<open>The report is complete\<close>

text \<open>What a finished sweep has left: the samples in the CSV file and every series in its chart.\<close>

definition results_written ::
  "float_env \<Rightarrow> string \<Rightarrow> string \<Rightarrow> Sample list \<Rightarrow> Sample list \<Rightarrow> effect list \<Rightarrow> bool" where
  "results_written F machine dir c s log \<longleftrightarrow>
     Write_File (path_join dir ''results.csv'') (csv_text F c s) \<in> set log \<and>
     (\<forall>(chart, name) \<in> set (zip (write_charts F machine c s) chart_files). \<forall>series \<in> set (ch_series chart).
        Draw (path_join dir name) (Draw_Circles (se_points series) 4 (se_color series) (se_name series)) \<in> set log \<and>
        Draw (path_join dir name) Present \<in> set log)"

lemma chart_effects_shown:
  assumes "(chart, path) \<in> set cs" and "call \<in> set (render_calls chart (projr (bounds F chart)))"
  shows "Draw path call \<in> set (chart_effects F cs)"
  using assms by (force simp: chart_effects_def)

lemma render_charts_shown:
  "(chart, name) \<in> set (zip (write_charts F machine c s) chart_files) \<Longrightarrow> series \<in> set (ch_series chart) \<Longrightarrow>
     Draw (path_join dir name) (Draw_Circles (se_points series) 4 (se_color series) (se_name series))
       \<in> set (chart_effects F (zip (write_charts F machine c s) (map (path_join dir) chart_files))) \<and>
     Draw (path_join dir name) Present
       \<in> set (chart_effects F (zip (write_charts F machine c s) (map (path_join dir) chart_files)))"
  by (intro conjI chart_effects_shown [of chart])
    (auto simp: zip_map2 render_calls_points render_calls_present)

lemma render_charts_outcome:
  assumes "c \<noteq> []" and "s \<noteq> []" and "render_charts E F machine dir c s log = (r, log')"
  shows "case r of
      Inr u \<Rightarrow> log' = log @ chart_effects F (zip (write_charts F machine c s) (map (path_join dir) chart_files))
    | Inl e \<Rightarrow> stopped_by E e log'"
  using charts_have_data [OF assms(1,2)] assms(3) unfolding render_charts_def
  by (intro render_all_outcome) (auto dest: set_zip_leftD)

lemma on_log_run: "m log = (r, log') \<Longrightarrow> on_log m (n, log) = Some (r, n, log')"
  by (simp add: on_log_def)

text \<open>The part of \<open>run\<close> after the measurements.\<close>

lemma results_outcome:
  fixes options
  defines "dir \<equiv> so_out_dir options"
  assumes ne: "c \<noteq> []" "s \<noteq> []"
  shows "\<exists>r log'. sweep_results F E parallelism arch options c s (n, log) = Some (r, n, log') \<and>
    (case r of Inr u \<Rightarrow> results_written F (machine_summary parallelism arch) dir c s log' | Inl e \<Rightarrow> stopped_by E e log')"
proof -
  from ne obtain ls where ls: "report F c s = Some ls" using report_None_iff [of F c s] by fastforce
  let ?m = "machine_summary parallelism arch" and ?log = "log @ map Print ls"
    and ?csv = "Write_File (path_join dir ''results.csv'') (csv_text F c s)"
    and ?ends = "map Print ['''', ''Charts and results.csv written to '' @ dir]"
  obtain r1 log1 where w: "emit E ?csv ?log = (r1, log1)" by fastforce
  obtain r2 log2 where d: "render_charts E F ?m dir c s log1 = (r2, log2)" by fastforce
  have run: "sweep_results F E parallelism arch options c s (n, log) =
      (case r1 of Inl e \<Rightarrow> Some (Inl e, n, log1) | Inr u \<Rightarrow>
        (case r2 of Inl e \<Rightarrow> Some (Inl e, n, log2) | Inr u \<Rightarrow> Some (Inr (), n, log2 @ ?ends)))"
    using w d unfolding sweep_results_def ls dir_def
    by (simp add: io_try_def on_log_def print_lines_def write_csv_def split: sum.split)
  show ?thesis
  proof (cases "\<exists>u v. r1 = Inr u \<and> r2 = Inr v")
    case False
    then show ?thesis using run emit_outcome [OF w] render_charts_outcome [OF ne d] by (cases r1; cases r2) auto
  next
    case True
    then have log2: "log2 = ?log @ ?csv # chart_effects F (zip (write_charts F ?m c s) (map (path_join dir) chart_files))"
      using emit_outcome [OF w] render_charts_outcome [OF ne d] by auto
    have "results_written F ?m dir c s (log2 @ ?ends)"
      unfolding results_written_def log2 using render_charts_shown [of _ _ F ?m c s _ dir] by fastforce
    then show ?thesis using run True by auto
  qed
qed

lemma sweep_main_outcome:
  assumes "clock_ok N T" and "so_connections options \<noteq> []" and "so_sizes options \<noteq> []"
  shows "\<exists>r n' log. sweep_main O' N F E parallelism arch options (n, []) = Some (r, n', log) \<and>
    (case r of
       Inr u \<Rightarrow> \<exists>c s. sweep_run O' N F options n = Some (Inr (c, s), n') \<and>
         map sample_key c = concat (map (concurrency_keys F options) ENGINES) \<and>
         map sample_key s = concat (map (size_keys F options) ENGINES) \<and>
         results_written F (machine_summary parallelism arch) (so_out_dir options) c s log
     | Inl e \<Rightarrow> sweep_run O' N F options n = Some (Inl e, n') \<or> stopped_by E e log)"
proof -
  obtain r0 log0 where e: "emit_all E [Create_Dir (so_out_dir options), Build_Runtime] [] = (r0, log0)" by fastforce
  obtain m n' where m: "sweep_run O' N F options n = Some (m, n')"
    using sweep_run_returns [OF assms(1), of O' F options] by (fastforce simp: returns_def)
  have run: "sweep_main O' N F E parallelism arch options (n, []) =
      (case r0 of Inl x \<Rightarrow> Some (Inl x, n, log0) | Inr u \<Rightarrow> (case m of Inl x \<Rightarrow> Some (Inl x, n', log0) | Inr cs \<Rightarrow> 
        (case cs of (c, s) \<Rightarrow> sweep_results F E parallelism arch options c s) (n', log0)))"
    unfolding sweep_main_def io_try_def by (simp add: on_log_def on_world_def e m del: emit_all.simps split: sum.split)
  consider (early) x where "r0 = Inl x" | (sweep) u x where "r0 = Inr u" "m = Inl x"
    | (both) u c s where "r0 = Inr u" "m = Inr (c, s)" by (cases r0; cases m) auto
  then show ?thesis
  proof cases
    case early
    then show ?thesis using emit_all_outcome [OF e] run by auto
  next
    case sweep
    then show ?thesis using run m by auto
  next
    case both
    note keys = sweep_run_keys [OF m [unfolded both(2)]]
    have ne: "c \<noteq> []" "s \<noteq> []"
      using keys assms(2,3) by (auto simp: ENGINES_def concurrency_keys_def size_keys_def)
    have "sweep_main O' N F E parallelism arch options (n, []) = sweep_results F E parallelism arch options c s (n', log0)"
      using run both by simp
    with results_outcome [OF ne, of F E parallelism arch options n' log0] obtain r log where
      "sweep_main O' N F E parallelism arch options (n, []) = Some (r, n', log)"
      "case r of Inr u \<Rightarrow> results_written F (machine_summary parallelism arch) (so_out_dir options) c s log
       | Inl e \<Rightarrow> stopped_by E e log"
      by auto
    then show ?thesis using keys m both(2) by (cases r) auto
  qed
qed



end
