(* ===== verification/Bench_Main.thy ===== *)
theory Bench_Main
  imports Bench_Report Bench_Servers
begin

text \<open>
  The entry points of the benchmark tool (\<open>tools/httpbench/src/main.rs\<close>): the arguments the command line
  leaves, what each command starts, the ad-hoc load run and its report, and the program around them.  Parsing the command line is done by the argument
  crate; the values it hands over are the records below.
\<close>

section \<open>Commands\<close>

record BenchArgs =
  ba_ports :: "u16 list"
  ba_path :: string
  ba_duration :: Duration
  ba_warmup :: Duration
  ba_connections :: "nat list"
  ba_sizes :: "nat list"
  ba_size_sweep_connections :: nat
  ba_concurrency_sweep_bytes :: nat
  ba_out :: string
  ba_kernel_cache :: bool

record ServeArgs =
  sa_engine :: Engine
  sa_port :: u16
  sa_path :: string
  sa_request_buffer :: nat
  sa_kernel_cache :: bool

record LoadArgs =
  la_host :: string
  la_port :: u16
  la_path :: string
  la_connections :: nat
  la_duration :: Duration
  la_size :: nat

datatype Command = Bench BenchArgs | Serve ServeArgs | Load LoadArgs

text \<open>What a command starts.\<close>

datatype started = Started_Sweep SweepOptions | Started_Server Engine u16 string ServeOptions | Started_Load LoadArgs

fun main_run :: "Command \<Rightarrow> started" where
  "main_run (Bench a) = Started_Sweep \<lparr>so_ports = ba_ports a, so_path = ba_path a, so_duration = ba_duration a,
     so_warmup = ba_warmup a, so_connections = ba_connections a, so_sizes = ba_sizes a,
     so_size_sweep_connections = ba_size_sweep_connections a, so_concurrency_sweep_bytes = ba_concurrency_sweep_bytes a,
     so_out_dir = ba_out a, so_kernel_cache = ba_kernel_cache a\<rparr>"
| "main_run (Serve a) = Started_Server (sa_engine a) (sa_port a) (sa_path a)
     \<lparr>sv_request_buffer_bytes = sa_request_buffer a, sv_kernel_cache = sa_kernel_cache a\<rparr>"
| "main_run (Load a) = Started_Load a"

section \<open>The ad-hoc load run\<close>

definition load_args_spec :: "LoadArgs \<Rightarrow> LoadSpec" where
  "load_args_spec args =
     \<lparr>ls_host = la_host args, ls_port = la_port args, ls_path = la_path args, ls_body = replicate (la_size args) 120,
      ls_connections = la_connections args, ls_duration = la_duration args\<rparr>"

definition load_lines :: "float_env \<Rightarrow> LoadSpec \<Rightarrow> LoadResult \<Rightarrow> string list" where
  "load_lines F spec result =
     [decimal (requests result) @ '' requests in '' @ fp_fixed F 2 (fp_as_secs F (lr_elapsed result)) @ ''s over '' @
        decimal (ls_connections spec) @ '' connections'',
      ''  throughput  '' @ fmt_rate F (requests_per_second F result) @ '' req/s'',
      ''  mean        '' @ fmt_millis F (mean_ms F result),
      ''  p50         '' @ fmt_millis F (percentile_ms F result f_half),
      ''  p99         '' @ fmt_millis F (percentile_ms F result f_99pc)] @
     (if 0 < lr_errors result then [''  errors      '' @ decimal (lr_errors result)] else [])"

definition ad_hoc_load :: "'n os \<Rightarrow> 'n net \<Rightarrow> float_env \<Rightarrow> LoadArgs \<Rightarrow> ('n, string list) io" where
  "ad_hoc_load O' N F args =
     (let spec = load_args_spec args in
      io_try (wait_until_ready N spec (5 * 10 ^ 9)) (\<lambda>_.
      io_try (io_lift (run_load O' spec)) (\<lambda>result. io_return (load_lines F spec result))))"

text \<open>An ad-hoc load run ends, and it prints an error line exactly when a connection failed.\<close>

lemma ad_hoc_load_returns:
  assumes "clock_ok N T"
  shows "returns (ad_hoc_load O' N F args)"
  unfolding ad_hoc_load_def Let_def by (intro returns_rules wait_until_ready_returns [OF assms])

lemma load_lines_errors: "length (load_lines F spec result) = (if lr_errors result = 0 then 5 else 6)"
  by (simp add: load_lines_def)

section \<open>The program\<close>

text \<open>\<open>run\<close>: the world is the log of kernel calls beside the environment of the measurements, under the log of effects.\<close>

definition bench_run ::
  "(ffi_log \<times> 'n) os \<Rightarrow> (ffi_log \<times> 'n) net \<Rightarrow> float_env \<Rightarrow> outside \<Rightarrow> kernel \<Rightarrow> (u32 \<Rightarrow> string) \<Rightarrow> nat option \<Rightarrow> string \<Rightarrow>
   (srv \<Rightarrow> 'n \<Rightarrow> 'n option) \<Rightarrow> (ffi_log \<times> 'n) axum_env \<Rightarrow> Command \<Rightarrow> ((ffi_log \<times> 'n) \<times> effect list, unit) io" where
  "bench_run O' N F E K message parallelism arch running X command =
     (case main_run command of
        Started_Sweep options \<Rightarrow> sweep_main O' N F E parallelism arch options
      | Started_Server engine tcp_port path options \<Rightarrow>
          on_world (serve K message parallelism running X engine tcp_port path options)
      | Started_Load args \<Rightarrow>
          io_try (on_log (emit E Build_Runtime)) (\<lambda>_.
          io_try (on_world (ad_hoc_load O' N F args)) (\<lambda>ls. on_log (print_lines ls))))"

text \<open>\<open>main\<close>: the exit status and what goes to the standard error.\<close>

definition bench_exit :: "unit bench_result \<Rightarrow> nat \<times> string list" where
  "bench_exit r = (case r of Inl e \<Rightarrow> (1, [''httpbench: '' @ e]) | Inr _ \<Rightarrow> (0, []))"

definition bench_main ::
  "(ffi_log \<times> 'n) os \<Rightarrow> (ffi_log \<times> 'n) net \<Rightarrow> float_env \<Rightarrow> outside \<Rightarrow> kernel \<Rightarrow> (u32 \<Rightarrow> string) \<Rightarrow> nat option \<Rightarrow> string \<Rightarrow>
   (srv \<Rightarrow> 'n \<Rightarrow> 'n option) \<Rightarrow> (ffi_log \<times> 'n) axum_env \<Rightarrow> Command \<Rightarrow> ffi_log \<times> 'n \<Rightarrow>
   ((nat \<times> string list) \<times> (ffi_log \<times> 'n) \<times> effect list) option" where
  "bench_main O' N F E K message parallelism arch running X command n =
     map_option (\<lambda>(r, w). (bench_exit r, w))
       (bench_run O' N F E K message parallelism arch running X command (n, []))"

text \<open>A load run always exits, with status zero exactly when the load ran and its report was printed.\<close>

lemma load_command_exits:
  assumes "clock_ok N T"
  shows "\<exists>status err w log. bench_main O' N F E K message parallelism arch running X (Load args) n = Some ((status, err), w, log) \<and>
    (status = 0 \<longleftrightarrow> E [] Build_Runtime = None \<and> (\<exists>ls w0. ad_hoc_load O' N F args n = Some (Inr ls, w0) \<and> log = Build_Runtime # map Print ls)) \<and>
    (status = 0 \<longleftrightarrow> err = [])"
proof -
  obtain r w where ad: "ad_hoc_load O' N F args n = Some (r, w)"
    using ad_hoc_load_returns [OF assms, of O' F args] unfolding returns_def by (metis not_None_eq surj_pair)
  show ?thesis
    by (cases "E [] Build_Runtime"; cases r)
      (auto simp: bench_main_def bench_run_def bench_exit_def io_try_def on_log_def on_world_def emit_def print_lines_def ad)
qed

end
