(* ===== verification/Bench_Ieee.thy ===== *)
theory Bench_Ieee
  imports Complex_Main Bench_Float
begin

text \<open>
  The arithmetic of \<open>f64\<close>: an instance of the parameter \<open>float_env\<close> in which every operation is that of the language, IEEE 754 binary64
  with rounding to nearest, ties to even.  A finite value is an integer number of units of \<open>2 ^ - 1074\<close>, the smallest
  positive one, so that all operations are exact integer or rational computations followed by one rounding.  The
  conversions follow the standard library: \<open>as f64\<close>, the saturating \<open>as usize\<close>, printing with a number of decimals (exact, ties
  to even), parsing of decimal text, and \<open>Duration\<close> from and to seconds.
\<close>

section \<open>Values\<close>

text \<open>The number of units of an encoded magnitude, as a mantissa and a power of two; the exponent field counts from one,
  and zero means no leading bit.\<close>

definition mag_mant :: "nat \<Rightarrow> nat" where
  "mag_mant k = (if k < 2 ^ 53 then k else 2 ^ 52 + k mod 2 ^ 52)"

definition mag_exp :: "nat \<Rightarrow> nat" where
  "mag_exp k = (if k < 2 ^ 53 then 0 else k div 2 ^ 52 - 1)"

definition mag_units :: "nat \<Rightarrow> nat" where
  "mag_units k = mag_mant k * 2 ^ mag_exp k"

definition f_neg :: "f64 \<Rightarrow> bool" where
  "f_neg x \<longleftrightarrow> bit (bits x) 63"

definition f_mant :: "f64 \<Rightarrow> nat" where
  "f_mant x = mag_mant (unat (f64_magnitude x))"

definition f_exp :: "f64 \<Rightarrow> nat" where
  "f_exp x = mag_exp (unat (f64_magnitude x))"

definition is_inf :: "f64 \<Rightarrow> bool" where
  "is_inf x \<longleftrightarrow> f64_magnitude x = f64_inf_bits"

definition signed :: "bool \<Rightarrow> u64 \<Rightarrow> f64" where
  "signed neg m = F64 (if neg then m OR 0x8000000000000000 else m)"

definition f_NAN :: f64 where
  "f_NAN = F64 0x7FF8000000000000"

definition f_inf :: "bool \<Rightarrow> f64" where
  "f_inf neg = signed neg f64_inf_bits"

section \<open>Rounding\<close>

definition round_half_even :: "nat \<Rightarrow> nat \<Rightarrow> nat" where
  "round_half_even num den =
     (let q = num div den; r = num mod den in
      if 2 * r < den \<or> (2 * r = den \<and> even q) then q else q + 1)"

text \<open>How far a number has to be shifted right to have at most 53 bits.\<close>

fun excess_bits :: "nat \<Rightarrow> nat" where
  "excess_bits n = (if n < 2 ^ 53 then 0 else Suc (excess_bits (n div 2)))"

declare excess_bits.simps [simp del]

text \<open>The encoded magnitude nearest to a quotient of units, before the range is checked.\<close>

definition round_mag :: "nat \<Rightarrow> nat \<Rightarrow> nat" where
  "round_mag num den = (let s = excess_bits (num div den) in s * 2 ^ 52 + round_half_even num (den * 2 ^ s))"

text \<open>The same for a quotient times a power of two; with 53 bits present the power only moves the exponent.\<close>

definition round_scaled :: "nat \<Rightarrow> nat \<Rightarrow> int \<Rightarrow> nat" where
  "round_scaled num den e =
     (if e < 0 then round_mag num (den * 2 ^ nat (- e))
      else if 2 ^ 53 * den \<le> num then nat e * 2 ^ 52 + round_mag num den
      else round_mag (num * 2 ^ nat e) den)"

definition f_round :: "bool \<Rightarrow> nat \<Rightarrow> nat \<Rightarrow> int \<Rightarrow> f64" where
  "f_round neg num den e =
     (let m = round_scaled num den e in if m < 2047 * 2 ^ 52 then signed neg (word_of_nat m) else f_inf neg)"

section \<open>Operations\<close>

definition f_opposite :: "f64 \<Rightarrow> f64" where
  "f_opposite x = F64 (bits x XOR 0x8000000000000000)"

definition f_signed_mant :: "f64 \<Rightarrow> nat \<Rightarrow> int" where
  "f_signed_mant x e = (if f_neg x then -1 else 1) * int (f_mant x * 2 ^ (f_exp x - e))"

definition ieee_add :: "f64 \<Rightarrow> f64 \<Rightarrow> f64" where
  "ieee_add x y =
     (if is_nan x \<or> is_nan y \<or> (is_inf x \<and> is_inf y \<and> f_neg x \<noteq> f_neg y) then f_NAN
      else if is_inf x then x else if is_inf y then y
      else if is_zero x \<and> \<not> is_zero y then y else if is_zero y \<and> \<not> is_zero x then x
      else let e = min (f_exp x) (f_exp y); s = f_signed_mant x e + f_signed_mant y e in
           if s = 0 then signed (f_neg x \<and> f_neg y) 0 else f_round (s < 0) (nat \<bar>s\<bar> * 2 ^ 53) 1 (int e - 53))"

definition ieee_sub :: "f64 \<Rightarrow> f64 \<Rightarrow> f64" where
  "ieee_sub x y = ieee_add x (f_opposite y)"

definition ieee_mul :: "f64 \<Rightarrow> f64 \<Rightarrow> f64" where
  "ieee_mul x y =
     (let neg = (f_neg x \<noteq> f_neg y) in
      if is_nan x \<or> is_nan y \<or> (is_zero x \<and> is_inf y) \<or> (is_inf x \<and> is_zero y) then f_NAN
      else if is_inf x \<or> is_inf y then f_inf neg
      else f_round neg (f_mant x * f_mant y) 1 (int (f_exp x + f_exp y) - 1074))"

definition ieee_div :: "f64 \<Rightarrow> f64 \<Rightarrow> f64" where
  "ieee_div x y =
     (let neg = (f_neg x \<noteq> f_neg y) in
      if is_nan x \<or> is_nan y \<or> (is_zero x \<and> is_zero y) \<or> (is_inf x \<and> is_inf y) then f_NAN
      else if is_inf x \<or> is_zero y then f_inf neg
      else if is_inf y then signed neg 0
      else f_round neg (f_mant x * 2 ^ 106) (f_mant y) (int (f_exp x) + 1074 - int (f_exp y) - 106))"

definition ieee_of_nat :: "nat \<Rightarrow> f64" where
  "ieee_of_nat n = f_round False (n * 2 ^ 53) 1 1021"

text \<open>A value times an integer, rounded down and rounded to nearest.\<close>

definition f_floor :: "f64 \<Rightarrow> nat" where
  "f_floor x = (if 1074 \<le> f_exp x then f_mant x * 2 ^ (f_exp x - 1074) else f_mant x div 2 ^ (1074 - f_exp x))"

definition f_nearest :: "f64 \<Rightarrow> nat \<Rightarrow> nat" where
  "f_nearest x k =
     (if 1074 \<le> f_exp x then f_mant x * k * 2 ^ (f_exp x - 1074) else round_half_even (f_mant x * k) (2 ^ (1074 - f_exp x)))"

definition ieee_to_usize :: "f64 \<Rightarrow> nat" where
  "ieee_to_usize x =
     (if is_nan x \<or> f_neg x then 0 else if is_inf x then U64_MAX else min (f_floor x) U64_MAX)"

text \<open>\<open>format!\<close> with \<open>d\<close> decimals: the exact value rounded, ties to even.\<close>

definition digits_padded :: "nat \<Rightarrow> nat \<Rightarrow> string" where
  "digits_padded width n = replicate (width - length (decimal n)) (CHR ''0'') @ decimal n"

definition ieee_fixed :: "nat \<Rightarrow> f64 \<Rightarrow> string" where
  "ieee_fixed d x =
     (let sign = (if f_neg x then ''-'' else '''') in
      if is_nan x then ''NaN'' else if is_inf x then sign @ ''inf''
      else let n = f_nearest x (10 ^ d) in
           sign @ decimal (n div 10 ^ d) @ (if d = 0 then '''' else ''.'' @ digits_padded d (n mod 10 ^ d)))"

text \<open>\<open>Duration::as_secs_f64\<close> and \<open>Duration::from_secs_f64\<close>; the latter panics on what does not fit.\<close>

definition f_1e9 :: f64 where "f_1e9 = F64 0x41CDCD6500000000"

definition ieee_as_secs :: "Duration \<Rightarrow> f64" where
  "ieee_as_secs t = ieee_add (ieee_of_nat (t div 10 ^ 9)) (ieee_div (ieee_of_nat (t mod 10 ^ 9)) f_1e9)"

definition ieee_from_secs :: "f64 \<Rightarrow> Duration option" where
  "ieee_from_secs x =
     (if \<not> is_finite x \<or> (f_neg x \<and> \<not> is_zero x) \<or> 2 ^ 64 \<le> f_floor x then None else Some (f_nearest x (10 ^ 9)))"

section \<open>Decimal text\<close>

text \<open>
  \<open>str::parse::<f64>\<close>: an optional sign, then a name of infinity or NaN in any case, or digits with an optional point, at
  least one digit, and an optional exponent; the value is rounded once.
\<close>

definition take_digits :: "string \<Rightarrow> string \<times> string" where
  "take_digits s = (takeWhile (\<lambda>c. digit_val c \<noteq> None) s, dropWhile (\<lambda>c. digit_val c \<noteq> None) s)"

definition digits_val :: "string \<Rightarrow> nat" where
  "digits_val s = foldl (\<lambda>n c. 10 * n + the (digit_val c)) 0 s"

definition take_sign :: "string \<Rightarrow> bool \<times> string" where
  "take_sign s = (case s of c # t \<Rightarrow> if c = CHR ''-'' then (True, t) else if c = CHR ''+'' then (False, t) else (False, s) | [] \<Rightarrow> (False, s))"

definition parse_exponent :: "string \<Rightarrow> int option" where
  "parse_exponent s =
     (case s of
        [] \<Rightarrow> Some 0
      | c # t \<Rightarrow>
          if c \<notin> {CHR ''e'', CHR ''E''} then None
          else case take_sign t of (neg, t) \<Rightarrow>
            case take_digits t of (ds, rest) \<Rightarrow>
              if ds = [] \<or> rest \<noteq> [] then None
              else Some (if neg then - int (digits_val ds) else int (digits_val ds)))"

definition parse_number :: "string \<Rightarrow> (nat \<times> int) option" where
  "parse_number s =
     (case take_digits s of (whole, rest) \<Rightarrow>
      case (case rest of c # t \<Rightarrow> if c = CHR ''.'' then take_digits t else ([], rest) | [] \<Rightarrow> ([], rest)) of (fraction, rest) \<Rightarrow>
        if whole = [] \<and> fraction = [] then None
        else map_option (\<lambda>e. (digits_val (whole @ fraction), e - int (length fraction))) (parse_exponent rest))"

definition decimal_round :: "bool \<Rightarrow> nat \<Rightarrow> int \<Rightarrow> f64" where
  "decimal_round neg n e =
     (if 0 \<le> e then f_round neg (n * 10 ^ nat e * 2 ^ 53) 1 1021
      else let k = nat (- e) in f_round neg (n * 2 ^ (53 + 4 * k)) (10 ^ k) (1021 - 4 * int k))"

definition lower_case :: "string \<Rightarrow> string" where
  "lower_case s = map (\<lambda>c. if 65 \<le> (of_char c :: nat) \<and> (of_char c :: nat) \<le> 90 then char_of ((of_char c :: nat) + 32) else c) s"

definition ieee_parse :: "string \<Rightarrow> f64 option" where
  "ieee_parse s =
     (case take_sign s of (neg, t) \<Rightarrow>
        if lower_case t \<in> {''inf'', ''infinity''} then Some (f_inf neg)
        else if lower_case t = ''nan'' then Some (if neg then f_opposite f_NAN else f_NAN)
        else map_option (\<lambda>(n, e). decimal_round neg n e) (parse_number t))"

definition ieee :: float_env where
  "ieee = \<lparr>fp_of_nat = ieee_of_nat, fp_add = ieee_add, fp_sub = ieee_sub, fp_mul = ieee_mul, fp_div = ieee_div,
     fp_to_usize = ieee_to_usize, fp_fixed = ieee_fixed, fp_parse = ieee_parse, fp_from_secs = ieee_from_secs,
     fp_as_secs = ieee_as_secs\<rparr>"

section \<open>Rounding is to the nearest representable value\<close>

lemma excess_bits_bound: "n div 2 ^ excess_bits n < 2 ^ 53"
proof (induction n rule: excess_bits.induct)
  case (1 n)
  show ?case
  proof (cases "n < 2 ^ 53")
    case True
    then show ?thesis by (simp add: excess_bits.simps [of n])
  next
    case False
    then have "excess_bits n = Suc (excess_bits (n div 2))" by (simp add: excess_bits.simps [of n])
    then show ?thesis using 1 False by (simp add: div_mult2_eq)
  qed
qed

lemma excess_bits_least: "0 < excess_bits n \<Longrightarrow> 2 ^ 52 \<le> n div 2 ^ excess_bits n"
proof (induction n rule: excess_bits.induct)
  case (1 n)
  have big: "\<not> n < 2 ^ 53" using 1(2) by (auto simp: excess_bits.simps [of n])
  then have eq: "excess_bits n = Suc (excess_bits (n div 2))" by (simp add: excess_bits.simps [of n])
  show ?case
  proof (cases "excess_bits (n div 2) = 0")
    case True
    have "(2 ^ 53 :: nat) div 2 \<le> n div 2" using big by (intro div_le_mono) simp
    then show ?thesis using eq True by simp
  next
    case False
    then show ?thesis using 1(1) [OF big] eq by (simp add: div_mult2_eq)
  qed
qed

lemma excess_bits_unique:
  assumes "n div 2 ^ s < 2 ^ 53" and "2 ^ 52 \<le> n div 2 ^ s"  and "0 < s"
  shows "excess_bits n = s"
  using assms
proof (induction s arbitrary: n)
  case (Suc s)
  have "2 ^ 52 * 2 ^ Suc s \<le> n" using Suc.prems(2)
    by (simp add: less_eq_div_iff_mult_less_eq)
  moreover have "(2 ^ 53 :: nat) \<le> 2 ^ 52 * 2 ^ Suc s" by simp
  ultimately have big: "\<not> n < 2 ^ 53" by linarith
  then have eq: "excess_bits n = Suc (excess_bits (n div 2))" by (simp add: excess_bits.simps [of n])
  show ?case
  proof (cases s)
    case 0
    then show ?thesis using Suc.prems(1) eq by (simp add: excess_bits.simps [of "n div 2"])
  next
    case (Suc t)
    have "n div 2 div 2 ^ s < 2 ^ 53" "2 ^ 52 \<le> n div 2 div 2 ^ s" "0 < s"
      using Suc.prems(1,2) Suc unfolding power_Suc [of 2 s] by (simp_all only: div_mult2_eq)
    with Suc.IH [of "n div 2"] eq show ?thesis by simp
  qed
qed simp

text \<open>No multiple of the divisor is nearer than the two neighbours of the quotient, and any other is farther.\<close>

lemma quotient_distance:
  fixes k :: int
  assumes "0 < den"
  shows "(if k \<le> int (num div den) then int (num mod den) else int den - int (num mod den)) \<le> \<bar>k * int den - int num\<bar>"
    and "k \<noteq> int (num div den) \<Longrightarrow> k \<noteq> int (num div den) + 1 \<Longrightarrow>
      (if k \<le> int (num div den) then int (num mod den) else int den - int (num mod den)) < \<bar>k * int den - int num\<bar>"
proof -
  let ?q = "num div den" and ?r = "num mod den"
  have num: "int num = int ?q * int den + int ?r" by (simp flip: of_nat_mult of_nat_add)
  have below: "(k + j) * int den \<le> int ?q * int den" if "k + j \<le> int ?q" for j
    using that by (intro mult_right_mono) simp_all
  have above: "(int ?q + j) * int den \<le> k * int den" if "int ?q + j \<le> k" for j
    using that by (intro mult_right_mono) simp_all
  show "(if k \<le> int ?q then int ?r else int den - int ?r) \<le> \<bar>k * int den - int num\<bar>"
    using below [of 0] above [of 1] num by (auto simp: algebra_simps)
  show "(if k \<le> int ?q then int ?r else int den - int ?r) < \<bar>k * int den - int num\<bar>" if "k \<noteq> int ?q" "k \<noteq> int ?q + 1"
    using that below [of 1] above [of 2] num assms by (auto simp: algebra_simps)
qed

text \<open>Half-even rounding picks a nearest multiple, the even one of two.\<close>

lemma round_half_even_nearest:
  assumes "0 < den"
  shows "\<bar>int (round_half_even num den * den) - int num\<bar> \<le> \<bar>k * int den - int num\<bar>"
    and "\<bar>int (round_half_even num den * den) - int num\<bar> = \<bar>k * int den - int num\<bar> \<Longrightarrow>
      k \<noteq> int (round_half_even num den) \<Longrightarrow> even (round_half_even num den)"
proof -
  let ?q = "num div den" and ?r = "num mod den"
  have num: "int num = int ?q * int den + int ?r" by (simp flip: of_nat_mult of_nat_add)
  have r: "int ?r < int den" "0 \<le> int ?r" using assms by simp_all
  note dist = quotient_distance(1) [OF assms, of _ num] and strict = quotient_distance(2) [OF assms, of _ num]
  have down: "\<bar>int (?q * den) - int num\<bar> = int ?r" using num by simp
  have up: "\<bar>int ((?q + 1) * den) - int num\<bar> = int den - int ?r" using num r by (simp add: algebra_simps)
  let ?m = "round_half_even num den" and ?d = "\<lambda>k. \<bar>k * int den - int num\<bar>"
  consider "?m = ?q" "2 * int ?r < int den" | "?m = ?q" "2 * int ?r = int den" "even ?q"
    | "?m = ?q + 1" "2 * int ?r > int den" | "?m = ?q + 1" "2 * int ?r = int den" "odd ?q"
    unfolding round_half_even_def Let_def by (cases "2 * ?r" den rule: linorder_cases) auto
  then have "\<bar>int (?m * den) - int num\<bar> \<le> ?d k \<and>
      (\<bar>int (?m * den) - int num\<bar> = ?d k \<and> k \<noteq> int ?m \<longrightarrow> even ?m)"
  proof cases
    case 1
    have "int ?r < ?d k" if "k \<noteq> int ?q" using dist [of k] strict [of k] that 1(2) by (auto split: if_splits)
    then show ?thesis using 1(1) down by (cases "k = int ?q") auto
  next
    case 2
    then show ?thesis using dist [of k] down by (auto split: if_splits)
  next
    case 3
    have "int den - int ?r < ?d k" if "k \<noteq> int ?q + 1" using dist [of k] strict [of k] that 3(2) by (auto split: if_splits)
    then show ?thesis using 3(1) up by (cases "k = int ?q + 1") (auto simp: algebra_simps)
  next
    case 4
    then show ?thesis using dist [of k] up by (auto split: if_splits)
  qed
  then show "\<bar>int (?m * den) - int num\<bar> \<le> ?d k"
    and "\<bar>int (?m * den) - int num\<bar> = ?d k \<Longrightarrow> k \<noteq> int ?m \<Longrightarrow> even ?m" by blast+
qed

lemma round_half_even_cancel: "0 < c \<Longrightarrow> round_half_even (a * c) (b * c) = round_half_even a b"
  by (simp add: round_half_even_def Let_def mult_mod_left flip: mult.assoc)

lemma round_half_even_range:
  "0 < den \<Longrightarrow> num div den \<le> round_half_even num den \<and> round_half_even num den \<le> num div den + 1"
  by (simp add: round_half_even_def Let_def)

text \<open>A rounded mantissa is encoded with its exponent, also when it has carried into the next binade.\<close>

lemma mag_units_encode:
  assumes "m \<le> 2 ^ 53" and "0 < s \<longrightarrow> 2 ^ 52 \<le> m"
  shows "mag_units (s * 2 ^ 52 + m) = m * 2 ^ s"
proof (cases "s = 0 \<and> m < 2 ^ 53")
  case True
  then show ?thesis by (simp add: mag_units_def mag_mant_def mag_exp_def)
next
  case False
  define k where "k = s * 2 ^ 52 + m"
  have big: "\<not> k < 2 ^ 53" using False assms by (cases s) (auto simp: k_def)
  show ?thesis
  proof (cases "m = 2 ^ 53")
    case True
    have "k = (s + 2) * 2 ^ 52" using True by (simp add: k_def)
    then have "k div 2 ^ 52 = s + 2" "k mod 2 ^ 52 = 0" by simp_all
    then show ?thesis using True big unfolding k_def [symmetric]
      by (simp add: mag_units_def mag_mant_def mag_exp_def)
  next
    case m: False
    with False assms have "2 ^ 52 \<le> m" "m < 2 ^ 53" by auto
    then obtain j where j: "m = 2 ^ 52 + j" "j < 2 ^ 52" using le_Suc_ex by force
    have k: "k = j + (s + 1) * 2 ^ 52" using j by (simp add: k_def)
    have "k div 2 ^ 52 = s + 1" "k mod 2 ^ 52 = j" using j(2) unfolding k by (simp, metis mod_less mod_mult_self1)
    then show ?thesis using big j(1) unfolding k_def [symmetric]
      by (simp add: mag_units_def mag_mant_def mag_exp_def)
  qed
qed

text \<open>Above the start of a binade every representable value is a multiple of its spacing.\<close>

lemma mag_units_dvd:
  assumes "2 ^ (52 + s) \<le> mag_units k"
  shows "2 ^ s dvd mag_units k"
proof (cases "k < 2 ^ 53")
  case True
  then have "(2 :: nat) ^ (52 + s) < 2 ^ 53" using assms by (simp add: mag_units_def mag_mant_def mag_exp_def)
  then have "52 + s < 53" by (rule power_less_imp_less_exp [rotated]) simp
  then show ?thesis by simp
next
  case False
  let ?e = "mag_exp k"
  have "mag_mant k < 2 ^ 53" using False by (simp add: mag_mant_def)
  then have "mag_units k < 2 ^ 53 * 2 ^ ?e" by (simp add: mag_units_def)
  with assms have "(2 :: nat) ^ (52 + s) < 2 ^ (53 + ?e)" by (simp add: power_add)
  then have "52 + s < 53 + ?e" by (rule power_less_imp_less_exp [rotated]) simp
  then show ?thesis by (simp add: mag_units_def le_imp_power_dvd)
qed

lemma round_mag_mant:
  fixes num den
  defines "s \<equiv> excess_bits (num div den)"
  assumes "0 < den"
  shows "mag_units (round_mag num den) = round_half_even num (den * 2 ^ s) * 2 ^ s"
    and "even (round_mag num den) = even (round_half_even num (den * 2 ^ s))"
proof -
  let ?m = "round_half_even num (den * 2 ^ s)"
  have q: "num div (den * 2 ^ s) = num div den div 2 ^ s" by (simp add: div_mult2_eq)
  have "num div (den * 2 ^ s) < 2 ^ 53" "0 < s \<longrightarrow> 2 ^ 52 \<le> num div (den * 2 ^ s)"
    using excess_bits_bound [of "num div den"] excess_bits_least [of "num div den"] unfolding q
    unfolding s_def by auto
  then have "?m \<le> 2 ^ 53" "0 < s \<longrightarrow> 2 ^ 52 \<le> ?m" using round_half_even_range [of "den * 2 ^ s" num] assms(2) by auto
  then show "mag_units (round_mag num den) = ?m * 2 ^ s"
    unfolding round_mag_def Let_def s_def [symmetric] by (rule mag_units_encode)
  show "even (round_mag num den) = even ?m" by (simp add: round_mag_def Let_def s_def)
qed

lemma round_mag_nearest:
  assumes "0 < den"
  shows "\<bar>int (mag_units (round_mag num den) * den) - int num\<bar> \<le> \<bar>int (mag_units k * den) - int num\<bar> \<and>
    (\<bar>int (mag_units (round_mag num den) * den) - int num\<bar> = \<bar>int (mag_units k * den) - int num\<bar> \<and>
       mag_units k \<noteq> mag_units (round_mag num den) \<longrightarrow> even (round_mag num den))"
proof -
  define s where "s = excess_bits (num div den)"
  let ?d = "den * 2 ^ s" and ?v = "mag_units k"
  let ?m = "round_half_even num ?d"
  note r = round_mag_mant [OF assms, of num, folded s_def]
  have d: "0 < ?d" using assms by simp
  have m: "mag_units (round_mag num den) * den = ?m * ?d" unfolding r by simp
  note near = round_half_even_nearest [OF d, of num]
  show ?thesis
  proof (cases "2 ^ s dvd ?v")
    case True
    then obtain t where t: "?v = 2 ^ s * t" by (rule dvdE)
    have v: "int (?v * den) = int t * int ?d" by (simp add: t)
    have "?v \<noteq> mag_units (round_mag num den) \<longrightarrow> int t \<noteq> int ?m" unfolding r(1) t by simp
    then show ?thesis using near [of "int t"] unfolding m r(2) v by blast
  next
    case False
    then have small: "?v < 2 ^ (52 + s)" using mag_units_dvd by (meson not_le)
    have "0 < s" using False by (cases s) auto
    then have "2 ^ 52 \<le> num div den div 2 ^ s" unfolding s_def by (rule excess_bits_least)
    then have "2 ^ 52 * ?d \<le> num" using d by (metis div_mult2_eq less_eq_div_iff_mult_less_eq)
    then have le: "int (2 ^ 52 * ?d) \<le> int num" by (rule of_nat_mono)
    have "?v * den < 2 ^ (52 + s) * den" using small assms by simp
    then have "int (?v * den) < int (2 ^ 52 * ?d)" by (simp only: power_add mult.assoc mult.commute [of den] of_nat_less_iff)
    with le have "\<bar>int (2 ^ 52 * ?d) - int num\<bar> < \<bar>int (?v * den) - int num\<bar>" by linarith
    moreover have "\<bar>int (?m * ?d) - int num\<bar> \<le> \<bar>int (2 ^ 52 * ?d) - int num\<bar>"
      using near(1) [of "int (2 ^ 52)"] by (simp only: of_nat_mult)
    ultimately show ?thesis unfolding m by linarith
  qed
qed

text \<open>Powers of two only move the exponent.\<close>

lemma round_mag_scale:
  assumes "0 < den" and "2 ^ 53 * den \<le> num"
  shows "round_mag (num * 2 ^ k) den = k * 2 ^ 52 + round_mag num den"
proof -
  let ?s = "excess_bits (num div den)"
  have n: "2 ^ 53 \<le> num div den" using assms by (simp add: less_eq_div_iff_mult_less_eq mult.commute)
  then have s: "0 < ?s" by (simp add: excess_bits.simps [of "num div den"])
  have "num * 2 ^ k div den div 2 ^ (k + ?s) = num * 2 ^ k div (den * 2 ^ ?s * 2 ^ k)"
    by (simp add: power_add mult.assoc mult.commute flip: div_mult2_eq)
  also have "\<dots> = num div (den * 2 ^ ?s)" by (rule div_mult_mult2) simp
  also have "\<dots> = num div den div 2 ^ ?s" by (simp add: div_mult2_eq)
  finally have "excess_bits (num * 2 ^ k div den) = k + ?s"
    using excess_bits_bound [of "num div den"] excess_bits_least [OF s] s by (intro excess_bits_unique) simp_all
  moreover have "round_half_even (num * 2 ^ k) (den * 2 ^ ?s * 2 ^ k) = round_half_even num (den * 2 ^ ?s)"
    by (rule round_half_even_cancel) simp
  ultimately show ?thesis by (simp add: round_mag_def Let_def power_add ac_simps)
qed

lemma round_scaled_eq:
  assumes "0 < den"
  shows "round_scaled num den e = round_mag (num * 2 ^ nat e) (den * 2 ^ nat (- e))"
  using round_mag_scale [OF assms, of num "nat e"] by (simp add: round_scaled_def)

section \<open>The value of a float\<close>

definition f_value :: "f64 \<Rightarrow> real" where
  "f_value x = (if f_neg x then - 1 else 1) * real (mag_units (unat (f64_magnitude x))) / 2 ^ 1074"

lemma f_value_mant: "f_value x = (if f_neg x then - 1 else 1) * real (f_mant x) * 2 ^ f_exp x / 2 ^ 1074"
  by (simp add: f_value_def f_mant_def f_exp_def mag_units_def)

lemma magnitude_mask: "f64_magnitude x = take_bit 63 (bits x)"
  by (simp add: f64_magnitude_def take_bit_eq_mask mask_eq_decr_exp)

lemma signed_parts:
  assumes "m < 2 ^ 63"
  shows "f_neg (signed neg (word_of_nat m)) = neg" and "unat (f64_magnitude (signed neg (word_of_nat m))) = m"
proof -
  let ?w = "word_of_nat m :: u64"
  have low: "take_bit 63 ?w = ?w" using assms
    by (simp add: take_bit_of_nat take_bit_nat_eq_self flip: of_nat_take_bit)
  then have "\<not> bit ?w 63" by (metis bit_take_bit_iff less_irrefl)
  moreover have "bit (0x8000000000000000 :: u64) 63" by simp
  ultimately show "f_neg (signed neg ?w) = neg" by (auto simp: f_neg_def signed_def bit_or_iff)
  have "take_bit 63 (0x8000000000000000 :: u64) = 0" by simp
  then have "f64_magnitude (signed neg ?w) = ?w" by (simp add: magnitude_mask signed_def take_bit_or low)
  moreover have "unat ?w = m" using assms by (simp add: unat_of_nat)
  ultimately show "unat (f64_magnitude (signed neg ?w)) = m" by simp
qed

lemma inf_not_finite: "\<not> is_finite (f_inf neg)"
  by (simp add: is_finite_def f_inf_def signed_def magnitude_mask f64_inf_bits_def)

lemma f_round_value:
  assumes "is_finite (f_round neg num den e)"
  shows "f_neg (f_round neg num den e) = neg"
    and "unat (f64_magnitude (f_round neg num den e)) = round_scaled num den e"
proof -
  have "round_scaled num den e < 2047 * 2 ^ 52"
    using assms inf_not_finite by (metis f_round_def)
  moreover from this have "round_scaled num den e < 2 ^ 63" by simp
  ultimately show "f_neg (f_round neg num den e) = neg" "unat (f64_magnitude (f_round neg num den e)) = round_scaled num den e"
    by (simp_all add: f_round_def signed_parts)
qed

text \<open>A finite result is nearest to the exact quotient among all floats.\<close>

lemma f_round_nearest:
  fixes neg num den e
  defines "exact \<equiv> (if neg then - 1 else 1) * (real num / real den) * 2 powr e / 2 ^ 1074"
  assumes den: "0 < den" and fin: "is_finite (f_round neg num den e)"
  shows "\<bar>f_value (f_round neg num den e) - exact\<bar> \<le> \<bar>f_value z - exact\<bar>"
proof -
  define n d where "n = num * 2 ^ nat e" and "d = den * 2 ^ nat (- e)"
  have d: "0 < d" using den by (simp add: d_def)
  let ?r = "mag_units (round_mag n d)" and ?z = "mag_units (unat (f64_magnitude z))" and ?q = "real n / real d"
  have pow: "(2 :: real) powr e = 2 ^ nat e / 2 ^ nat (- e)"
    by (cases "0 \<le> e") (simp_all add: powr_real_of_int divide_inverse)
  have exact: "exact = (if neg then - 1 else 1) * ?q / 2 ^ 1074"
    by (simp add: exact_def pow n_def d_def)
  have dist: "\<bar>real k - ?q\<bar> = \<bar>real_of_int (int (k * d) - int n)\<bar> / real d" for k
  proof -
    have "real k - ?q = real_of_int (int (k * d) - int n) / real d" using d by (simp add: field_simps)
    then show ?thesis using d by (simp add: abs_divide)
  qed
  have near: "\<bar>real ?r - ?q\<bar> \<le> \<bar>real (mag_units k) - ?q\<bar>" for k
    unfolding dist using d round_mag_nearest [OF d, of n k] by (intro divide_right_mono) (simp_all del: of_int_diff flip: of_int_abs)
  have "0 \<le> ?q" by simp
  have zero: "mag_units 0 = 0" by (simp add: mag_units_def mag_mant_def)
  have near': "\<bar>real ?r - ?q\<bar> \<le> \<bar>(if f_neg z = neg then 1 else - 1) * real ?z - ?q\<bar>"
    using near [of "unat (f64_magnitude z)"] near [of 0] zero \<open>0 \<le> ?q\<close> by auto
  let ?g = "if neg then - 1 else 1 :: real" and ?u = "2 ^ 1074 :: real"
  have r: "f_value (f_round neg num den e) = ?g * real ?r / ?u"
    by (simp only: f_value_def f_round_value [OF fin] round_scaled_eq [OF den] n_def d_def)
  have z: "f_value z = ?g * ((if f_neg z = neg then 1 else - 1) * real ?z) / ?u"
    by (cases neg; cases "f_neg z") (simp_all add: f_value_def)
  have same: "\<bar>?g * a / ?u - ?g * b / ?u\<bar> = \<bar>a - b\<bar> / ?u" for a b
  proof -
    have "?g * a / ?u - ?g * b / ?u = ?g * (a - b) / ?u" by (simp only: right_diff_distrib diff_divide_distrib)
    then show ?thesis by (simp add: abs_divide abs_mult del: power_numeral)
  qed
  show ?thesis unfolding r z exact same using near' by (rule divide_right_mono) simp
qed

lemma finite_not_special: "is_finite x \<Longrightarrow> \<not> is_nan x \<and> \<not> is_inf x"
  by (auto simp: is_finite_def is_nan_def is_inf_def)

lemma f_signed_mant_value:
  assumes "e \<le> f_exp x"
  shows "real_of_int (f_signed_mant x e) * 2 ^ e / 2 ^ 1074 = f_value x"
proof -
  have "(2 :: real) ^ f_exp x = 2 ^ (f_exp x - e) * 2 ^ e" using assms by (simp flip: power_add)
  then show ?thesis by (simp add: f_value_mant f_signed_mant_def)
qed

lemma f_opposite_value [simp]: "f_value (f_opposite x) = - f_value x" "is_finite (f_opposite x) = is_finite x"
proof -
  have low: "take_bit 63 (bits x XOR 0x8000000000000000) = take_bit 63 (bits x)" by (simp add: take_bit_xor)
  have high: "bit (bits x XOR 0x8000000000000000) 63 = (\<not> bit (bits x) 63)" by (simp add: bit_xor_iff)
  show "f_value (f_opposite x) = - f_value x"
    using high by (simp add: f_value_def f_neg_def f_opposite_def magnitude_mask low)
  show "is_finite (f_opposite x) = is_finite x" by (simp add: is_finite_def f_opposite_def magnitude_mask low)
qed

lemma signed_zero_value: "f_value (signed neg 0) = 0"
  using signed_parts(2) [of 0 neg] by (simp add: f_value_def mag_units_def mag_mant_def)

lemma is_zero_value: "is_zero x \<longleftrightarrow> f_mant x = 0"
  by (auto simp: is_zero_def f_mant_def mag_mant_def unat_eq_zero)

definition nearest_to :: "f64 \<Rightarrow> real \<Rightarrow> bool" where
  "nearest_to r exact \<longleftrightarrow> (\<forall>z. is_finite z \<longrightarrow> \<bar>f_value r - exact\<bar> \<le> \<bar>f_value z - exact\<bar>)"

lemma nearest_to_f_round:
  assumes "0 < den" and "is_finite (f_round neg num den e)"
    and "exact = (if neg then - 1 else 1) * (real num / real den) * 2 powr e / 2 ^ 1074"
  shows "nearest_to (f_round neg num den e) exact"
  unfolding nearest_to_def assms(3) using f_round_nearest [OF assms(1,2)] by blast

lemma powr_diff_nat: "(2 :: real) powr real_of_int (int a - int b) = 2 ^ a / 2 ^ b"
  by (simp add: powr_diff powr_realpow)

lemma zero_value: "is_zero x \<Longrightarrow> f_value x = 0"
  by (simp add: f_value_mant is_zero_value)

lemma ieee_add_nearest:
  assumes "is_finite x" and "is_finite y" and fin: "is_finite (ieee_add x y)"
  shows "nearest_to (ieee_add x y) (f_value x + f_value y)"
proof (cases "is_zero x \<noteq> is_zero y")
  case True
  then show ?thesis using finite_not_special [OF assms(1)] finite_not_special [OF assms(2)] zero_value
    by (auto simp: ieee_add_def nearest_to_def)
next
  case same: False
  let ?e = "min (f_exp x) (f_exp y)"
  define s where "s = f_signed_mant x ?e + f_signed_mant y ?e"
  have exact: "f_value x + f_value y = real_of_int s * 2 ^ ?e / 2 ^ 1074"
    using f_signed_mant_value [of ?e x] f_signed_mant_value [of ?e y] by (simp add: s_def field_simps)
  have run: "ieee_add x y = (if s = 0 then signed (f_neg x \<and> f_neg y) 0 else f_round (s < 0) (nat \<bar>s\<bar> * 2 ^ 53) 1 (int ?e - 53))"
    using finite_not_special [OF assms(1)] finite_not_special [OF assms(2)] same by (auto simp: ieee_add_def Let_def s_def)
  show ?thesis
  proof (cases "s = 0")
    case True
    then show ?thesis using run exact by (simp add: nearest_to_def signed_zero_value)
  next
    case False
    have "real_of_int s = (if s < 0 then - 1 else 1) * real (nat \<bar>s\<bar>)" by simp
    then have "f_value x + f_value y =
        (if s < 0 then - 1 else 1) * (real (nat \<bar>s\<bar> * 2 ^ 53) / real 1) * 2 powr (int ?e - int 53) / 2 ^ 1074"
      unfolding exact powr_diff_nat by simp
    then show ?thesis using run False fin by (auto intro!: nearest_to_f_round)
  qed
qed

lemma ieee_mul_nearest:
  assumes "is_finite x" and "is_finite y" and fin: "is_finite (ieee_mul x y)"
  shows "nearest_to (ieee_mul x y) (f_value x * f_value y)"
proof -
  have run: "ieee_mul x y = f_round (f_neg x \<noteq> f_neg y) (f_mant x * f_mant y) 1 (int (f_exp x + f_exp y) - int 1074)"
    using finite_not_special [OF assms(1)] finite_not_special [OF assms(2)] by (simp add: ieee_mul_def Let_def)
  have "f_value x * f_value y = (if f_neg x \<noteq> f_neg y then - 1 else 1) * (real (f_mant x * f_mant y) / real 1) *
      2 powr (int (f_exp x + f_exp y) - int 1074) / 2 ^ 1074"
    unfolding powr_diff_nat by (simp add: f_value_mant power_add)
  then show ?thesis using fin unfolding run by (intro nearest_to_f_round) simp_all
qed

lemma ieee_div_nearest:
  assumes "is_finite x" and "is_finite y" and "\<not> is_zero y" and fin: "is_finite (ieee_div x y)"
  shows "nearest_to (ieee_div x y) (f_value x / f_value y)"
proof -
  have run: "ieee_div x y =
      f_round (f_neg x \<noteq> f_neg y) (f_mant x * 2 ^ 106) (f_mant y) (int (f_exp x + 1074) - int (f_exp y + 106))"
    using finite_not_special [OF assms(1)] finite_not_special [OF assms(2)] assms(3) by (simp add: ieee_div_def Let_def algebra_simps)
  have y: "0 < f_mant y" using assms(3) is_zero_value by simp
  have "f_value x / f_value y = (if f_neg x \<noteq> f_neg y then - 1 else 1) * (real (f_mant x * 2 ^ 106) / real (f_mant y)) *
      2 powr (int (f_exp x + 1074) - int (f_exp y + 106)) / 2 ^ 1074"
    unfolding powr_diff_nat f_value_mant power_add by (simp add: divide_simps)
  then show ?thesis using fin y unfolding run by (intro nearest_to_f_round) simp_all
qed

lemma ieee_of_nat_nearest: "is_finite (ieee_of_nat n) \<Longrightarrow> nearest_to (ieee_of_nat n) (real n)"
proof -
  assume fin: "is_finite (ieee_of_nat n)"
  have "real n = (if False then - 1 else 1) * (real (n * 2 ^ 53) / real 1) * 2 powr (int 1021 - int 0) / 2 ^ 1074"
    unfolding powr_diff_nat by simp
  then show ?thesis using fin unfolding ieee_of_nat_def by (intro nearest_to_f_round) simp_all
qed

section \<open>Evaluation\<close>

text \<open>The rules that compute with literal floats.\<close>

lemmas ieee_eval =
  mag_mant_def mag_exp_def f_neg_def f_mant_def f_exp_def is_inf_def signed_def f_inf_def round_half_even_def round_mag_def
  round_scaled_def f_round_def f_floor_def f_nearest_def f_opposite_def f_signed_mant_def ieee_add_def ieee_sub_def ieee_mul_def
  ieee_div_def ieee_of_nat_def ieee_fixed_def f64_magnitude_def is_nan_def is_finite_def is_zero_def f64_inf_bits_def Let_def
  excess_bits.simps digits_padded_def ieee_as_secs_def ieee_from_secs_def f_1e9_def ieee_to_usize_def U64_MAX_def
  ieee_def

lemmas ieee_parse_eval =
  take_digits_def digits_val_def take_sign_def parse_exponent_def parse_number_def decimal_round_def lower_case_def ieee_parse_def
  digit_val_def

lemmas float_order_eval = f_ge_def f_lt_def less_eq_f64_def less_f64_def total_key_def

lemma char_of_digits:
  "char_of (48::nat) = CHR ''0''" "char_of (49::nat) = CHR ''1''" "char_of (50::nat) = CHR ''2''" "char_of (51::nat) = CHR ''3''"
  "char_of (52::nat) = CHR ''4''" "char_of (53::nat) = CHR ''5''" "char_of (54::nat) = CHR ''6''" "char_of (55::nat) = CHR ''7''"
  "char_of (56::nat) = CHR ''8''" "char_of (57::nat) = CHR ''9''"
  by code_simp+

lemmas decimal_eval = decimal.simps char_of_digits

section \<open>Properties\<close>

text \<open>
  The benchmark's arithmetic is that of IEEE 754.  Whenever the sum, difference, product or quotient of two finite floats, or the
  conversion of an integer, is finite, it is as near to the exact real result as any other finite float.
\<close>

lemma ieee_rounds_to_nearest:
  assumes "is_finite x" and "is_finite y"
  shows "(is_finite (fp_add ieee x y) \<longrightarrow> nearest_to (fp_add ieee x y) (f_value x + f_value y)) \<and>
    (is_finite (fp_sub ieee x y) \<longrightarrow> nearest_to (fp_sub ieee x y) (f_value x - f_value y)) \<and>
    (is_finite (fp_mul ieee x y) \<longrightarrow> nearest_to (fp_mul ieee x y) (f_value x * f_value y)) \<and>
    (is_finite (fp_div ieee x y) \<and> \<not> is_zero y \<longrightarrow> nearest_to (fp_div ieee x y) (f_value x / f_value y)) \<and>
    (is_finite (fp_of_nat ieee n) \<longrightarrow> nearest_to (fp_of_nat ieee n) (real n))"
  using ieee_add_nearest [OF assms] ieee_add_nearest [OF assms(1), of "f_opposite y"] assms(2) ieee_mul_nearest [OF assms]
    ieee_div_nearest [OF assms] ieee_of_nat_nearest [of n]
  by (simp add: ieee_def ieee_sub_def)

end
