(* ===== verification/Bench_Cli.thy ===== *)
theory Bench_Cli
  imports Bench_Main Bench_Ieee
begin

text \<open>
  The command line of the benchmark tool (the \<open>clap\<close> declarations of \<open>tools/httpbench/src/main.rs\<close>): for every option its name, its
  default, its separator and its parser.  Splitting the words of the command line into options is the argument crate's
  work and a parameter; what it hands over is the text given for each long option and the set of flags present.
\<close>

section \<open>Options\<close>

datatype arg_error = Missing_Arg string | Invalid_Value string string

text \<open>\<open>None\<close> is the panic of a value parser.\<close>

type_synonym 'a arg = "(arg_error + 'a) option"

record matches =
  given :: "string \<rightharpoonup> string"
  flags :: "string set"

definition no_matches :: matches where
  "no_matches = \<lparr>given = Map.empty, flags = {}\<rparr>"

definition arg_then :: "'a arg \<Rightarrow> ('a \<Rightarrow> 'b arg) \<Rightarrow> 'b arg" where
  "arg_then a f = (case a of None \<Rightarrow> None | Some (Inl e) \<Rightarrow> Some (Inl e) | Some (Inr x) \<Rightarrow> f x)"

definition arg_value :: "matches \<Rightarrow> string \<Rightarrow> string option \<Rightarrow> (string \<Rightarrow> (string + 'a) option) \<Rightarrow> 'a arg" where
  "arg_value m name preset parser =
     (case (case given m name of Some t \<Rightarrow> Some t | None \<Rightarrow> preset) of
        None \<Rightarrow> Some (Inl (Missing_Arg name))
      | Some t \<Rightarrow> map_option (map_sum (Invalid_Value name) id) (parser t))"

fun split_on :: "char \<Rightarrow> string \<Rightarrow> string list" where
  "split_on c [] = [[]]"
| "split_on c (x # xs) = (if x = c then [] # split_on c xs else (case split_on c xs of y # ys \<Rightarrow> (x # y) # ys | [] \<Rightarrow> [[x]]))"

fun parse_each :: "(string \<Rightarrow> (string + 'a) option) \<Rightarrow> string list \<Rightarrow> (string + 'a list) option" where
  "parse_each parser [] = Some (Inr [])"
| "parse_each parser (t # ts) =
     (case parser t of
        None \<Rightarrow> None
      | Some (Inl e) \<Rightarrow> Some (Inl e)
      | Some (Inr x) \<Rightarrow> map_option (map_sum id (\<lambda>xs. x # xs)) (parse_each parser ts))"

definition arg_list :: "matches \<Rightarrow> string \<Rightarrow> string \<Rightarrow> (string \<Rightarrow> (string + 'a) option) \<Rightarrow> 'a list arg" where
  "arg_list m name preset parser = arg_value m name (Some preset) (\<lambda>t. parse_each parser (split_on (CHR '','') t))"

text \<open>The parsers of the argument crate: text, a path that is not empty, a \<open>usize\<close>, a \<open>u16\<close> read as a signed number in range, and
  an engine by its name.\<close>

definition parse_text :: "string \<Rightarrow> (string + string) option" where
  "parse_text t = Some (Inr t)"

definition parse_path :: "string \<Rightarrow> (string + string) option" where
  "parse_path t = Some (if t = [] then Inl '''' else Inr t)"

definition parse_usize :: "string \<Rightarrow> (string + nat) option" where
  "parse_usize t = Some (case parse_uint U64_MAX t of None \<Rightarrow> Inl '''' | Some n \<Rightarrow> Inr n)"

definition parse_u16 :: "string \<Rightarrow> (string + u16) option" where
  "parse_u16 t =
     Some (case (case t of c # cs \<Rightarrow> if c = CHR ''-'' then (if cs = [] then None else parse_digits 0 0 cs) else parse_uint 65535 t
                         | [] \<Rightarrow> None) of
             None \<Rightarrow> Inl '''' | Some n \<Rightarrow> Inr (word_of_nat n))"

definition parse_engine :: "string \<Rightarrow> (string + Engine) option" where
  "parse_engine t = Some (if t = ''httpsys'' then Inr Engine_Httpsys else if t = ''axum'' then Inr Engine_Axum else Inl '''')"

section \<open>The commands\<close>

definition bench_args :: "float_env \<Rightarrow> bool \<Rightarrow> matches \<Rightarrow> BenchArgs arg" where
  "bench_args F oc m =
     arg_then (arg_list m ''ports'' ''8080,8081'' parse_u16) (\<lambda>ports.
     arg_then (arg_value m ''path'' (Some BENCH_PATH) parse_text) (\<lambda>path.
     arg_then (arg_value m ''duration'' (Some ''3'') (parse_seconds F)) (\<lambda>duration.
     arg_then (arg_value m ''warmup'' (Some ''1'') (parse_seconds F)) (\<lambda>warmup.
     arg_then (arg_list m ''connections'' ''1,2,4,8,16,32,64,128,256'' parse_usize) (\<lambda>connections.
     arg_then (arg_list m ''sizes'' ''1KiB,4KiB,16KiB,64KiB,256KiB,1MiB,4MiB,8MiB'' (parse_bytes oc)) (\<lambda>sizes.
     arg_then (arg_value m ''size-sweep-connections'' (Some ''32'') parse_usize) (\<lambda>size_sweep_connections.
     arg_then (arg_value m ''concurrency-sweep-bytes'' (Some ''0'') (parse_bytes oc)) (\<lambda>concurrency_sweep_bytes.
     arg_then (arg_value m ''out'' (Some ''charts'') parse_path) (\<lambda>out.
       Some (Inr \<lparr>ba_ports = ports, ba_path = path, ba_duration = duration, ba_warmup = warmup, ba_connections = connections,
         ba_sizes = sizes, ba_size_sweep_connections = size_sweep_connections,
         ba_concurrency_sweep_bytes = concurrency_sweep_bytes, ba_out = out,
         ba_kernel_cache = (''kernel-cache'' \<in> flags m)\<rparr>))))))))))"

definition serve_args :: "bool \<Rightarrow> matches \<Rightarrow> ServeArgs arg" where
  "serve_args oc m =
     arg_then (arg_value m ''engine'' None parse_engine) (\<lambda>engine.
     arg_then (arg_value m ''port'' (Some ''8080'') parse_u16) (\<lambda>tcp_port.
     arg_then (arg_value m ''path'' (Some BENCH_PATH) parse_text) (\<lambda>path.
     arg_then (arg_value m ''request-buffer'' (Some ''16KiB'') (parse_bytes oc)) (\<lambda>request_buffer.
       Some (Inr \<lparr>sa_engine = engine, sa_port = tcp_port, sa_path = path, sa_request_buffer = request_buffer,
         sa_kernel_cache = (''kernel-cache'' \<in> flags m)\<rparr>)))))"

definition load_args :: "float_env \<Rightarrow> bool \<Rightarrow> matches \<Rightarrow> LoadArgs arg" where
  "load_args F oc m =
     arg_then (arg_value m ''host'' (Some ''127.0.0.1'') parse_text) (\<lambda>host.
     arg_then (arg_value m ''port'' (Some ''8080'') parse_u16) (\<lambda>tcp_port.
     arg_then (arg_value m ''path'' (Some BENCH_PATH) parse_text) (\<lambda>path.
     arg_then (arg_value m ''connections'' (Some ''32'') parse_usize) (\<lambda>connections.
     arg_then (arg_value m ''duration'' (Some ''5'') (parse_seconds F)) (\<lambda>duration.
     arg_then (arg_value m ''size'' (Some ''0'') (parse_bytes oc)) (\<lambda>size.
       Some (Inr \<lparr>la_host = host, la_port = tcp_port, la_path = path, la_connections = connections, la_duration = duration,
         la_size = size\<rparr>)))))))"

definition cli_command :: "float_env \<Rightarrow> bool \<Rightarrow> string \<Rightarrow> matches \<Rightarrow> Command arg" where
  "cli_command F oc name m =
     (if name = ''bench'' then arg_then (bench_args F oc m) (\<lambda>a. Some (Inr (Bench a)))
      else if name = ''serve'' then arg_then (serve_args oc m) (\<lambda>a. Some (Inr (Serve a)))
      else if name = ''load'' then arg_then (load_args F oc m) (\<lambda>a. Some (Inr (Load a)))
      else Some (Inl (Invalid_Value ''command'' name)))"

text \<open>\<open>Cli::parse\<close>, over what the crate makes of the words: a subcommand with its matches, or an error of its own.\<close>

definition cli_parse ::
  "(string list \<Rightarrow> (string \<times> matches) option) \<Rightarrow> float_env \<Rightarrow> bool \<Rightarrow> string list \<Rightarrow> Command arg" where
  "cli_parse clap F oc argv =
     (case clap argv of None \<Rightarrow> Some (Inl (Missing_Arg ''command'')) | Some (name, m) \<Rightarrow> cli_command F oc name m)"

section \<open>Defaults\<close>

lemma parse_bytes_unit:
  assumes "(to_ascii_lowercase u, m) \<in> set byte_units" and "n * m \<le> U64_MAX" and "n \<le> U64_MAX" and "t = decimal n @ u"
  shows "parse_bytes oc t = Some (Inr (n * m))"
  using parse_bytes_decimal [OF byte_units_alpha [OF assms(1)] assms(3), of oc] byte_units_multiplier [OF assms(1)] assms(2)
  by (simp add: assms(4) to_ascii_lowercase_def)

lemma unit_texts:
  "(to_ascii_lowercase [], 1) \<in> set byte_units" "(to_ascii_lowercase ''KiB'', 1024) \<in> set byte_units"
  "(to_ascii_lowercase ''MiB'', 1048576) \<in> set byte_units"
  by (simp_all add: to_ascii_lowercase_def to_ascii_lower_def byte_units_def) code_simp+

lemma parse_bytes_literals:
  "parse_bytes oc ''0'' = Some (Inr 0)" "parse_bytes oc ''1KiB'' = Some (Inr 1024)" "parse_bytes oc ''4KiB'' = Some (Inr 4096)"
  "parse_bytes oc ''16KiB'' = Some (Inr 16384)" "parse_bytes oc ''64KiB'' = Some (Inr 65536)"
  "parse_bytes oc ''256KiB'' = Some (Inr 262144)" "parse_bytes oc ''1MiB'' = Some (Inr 1048576)"
  "parse_bytes oc ''4MiB'' = Some (Inr 4194304)" "parse_bytes oc ''8MiB'' = Some (Inr 8388608)"
  using parse_bytes_unit [OF unit_texts(1), of 0] parse_bytes_unit [OF unit_texts(2), of 1] parse_bytes_unit [OF unit_texts(2), of 4]
    parse_bytes_unit [OF unit_texts(2), of 16] parse_bytes_unit [OF unit_texts(2), of 64] parse_bytes_unit [OF unit_texts(2), of 256]
    parse_bytes_unit [OF unit_texts(3), of 1] parse_bytes_unit [OF unit_texts(3), of 4] parse_bytes_unit [OF unit_texts(3), of 8]
  by (simp_all add: decimal_eval U64_MAX_def)

lemma seconds_texts:
  "trim_end_matches (CHR ''s'') (trim ''1'') = ''1''" "trim_end_matches (CHR ''s'') (trim ''3'') = ''3''"
  "trim_end_matches (CHR ''s'') (trim ''5'') = ''5''" "trim_end_matches (CHR ''s'') (trim ''1e30'') = ''1e30''"
  by (simp_all add: trim_word is_digit_iff trim_end_matches_def)

lemma parse_seconds_literals:
  "parse_seconds ieee ''1'' = Some (Inr 1000000000)" "parse_seconds ieee ''3'' = Some (Inr 3000000000)"
  "parse_seconds ieee ''5'' = Some (Inr 5000000000)"
  by (simp_all add: parse_seconds_def seconds_texts ieee_eval ieee_parse_eval float_order_eval f_0_def)

lemma parse_seconds_panics: "parse_seconds ieee ''1e30'' = None"
  by (simp add: parse_seconds_def seconds_texts ieee_eval ieee_parse_eval float_order_eval f_0_def)

lemma arg_value_preset:
  "given m name = None \<Longrightarrow> parser t = Some (Inr x) \<Longrightarrow> arg_value m name (Some t) parser = Some (Inr x)"
  by (simp add: arg_value_def)

lemma arg_value_given:
  "given m name = Some t \<Longrightarrow> parser t = Some (Inr x) \<Longrightarrow> arg_value m name preset parser = Some (Inr x)"
  by (simp add: arg_value_def)

lemma arg_list_preset:
  "given m name = None \<Longrightarrow> parse_each parser (split_on (CHR '','') t) = Some (Inr xs) \<Longrightarrow> arg_list m name t parser = Some (Inr xs)"
  unfolding arg_list_def by (rule arg_value_preset)

lemma arg_then_Inr [simp]: "arg_then (Some (Inr x)) f = f x"
  by (simp add: arg_then_def)

lemma parse_usize_decimal: "n \<le> U64_MAX \<Longrightarrow> parse_usize (decimal n) = Some (Inr n)"
  by (simp add: parse_usize_def parse_uint_decimal)

lemma decimal_hd_not_minus: "hd (decimal n) \<noteq> CHR ''-''"
  using decimal_hd_last(1) [of n] by (auto simp: is_digit_iff)

lemma parse_u16_decimal: "parse_u16 (decimal (unat w)) = Some (Inr w)"
proof -
  have "unat w \<le> 65535" using unsigned_less [of w, where ?'a = nat] by simp
  then show ?thesis using decimal_hd_not_minus [of "unat w"] parse_uint_decimal [of "unat w" 65535] decimal_nonempty [of "unat w"]
    by (auto simp: parse_u16_def split: list.split)
qed

lemma parse_usize_literals:
  "parse_usize ''1'' = Some (Inr 1)" "parse_usize ''2'' = Some (Inr 2)" "parse_usize ''4'' = Some (Inr 4)"
  "parse_usize ''8'' = Some (Inr 8)" "parse_usize ''16'' = Some (Inr 16)" "parse_usize ''32'' = Some (Inr 32)"
  "parse_usize ''64'' = Some (Inr 64)" "parse_usize ''128'' = Some (Inr 128)" "parse_usize ''256'' = Some (Inr 256)"
  using parse_usize_decimal [of 1] parse_usize_decimal [of 2] parse_usize_decimal [of 4] parse_usize_decimal [of 8]
    parse_usize_decimal [of 16] parse_usize_decimal [of 32] parse_usize_decimal [of 64] parse_usize_decimal [of 128]
    parse_usize_decimal [of 256]
  by (simp_all add: decimal_eval U64_MAX_def)

lemma parse_u16_literals: "parse_u16 ''8080'' = Some (Inr 8080)" "parse_u16 ''8081'' = Some (Inr 8081)"
  using parse_u16_decimal [of 8080] parse_u16_decimal [of 8081] by (simp_all add: decimal_eval)

lemmas arg_literals = parse_bytes_literals parse_seconds_literals parse_usize_literals parse_u16_literals

definition bench_defaults :: BenchArgs where
  "bench_defaults = \<lparr>ba_ports = [8080, 8081], ba_path = ''/bench/'', ba_duration = 3 * 10 ^ 9, ba_warmup = 10 ^ 9,
     ba_connections = [1, 2, 4, 8, 16, 32, 64, 128, 256],
     ba_sizes = [2 ^ 10, 2 ^ 12, 2 ^ 14, 2 ^ 16, 2 ^ 18, 2 ^ 20, 2 ^ 22, 2 ^ 23],
     ba_size_sweep_connections = 32, ba_concurrency_sweep_bytes = 0, ba_out = ''charts'', ba_kernel_cache = False\<rparr>"

lemma bench_args_defaults: "bench_args ieee oc no_matches = Some (Inr bench_defaults)"
  by (simp add: bench_args_def no_matches_def arg_list_def arg_value_def arg_literals parse_text_def parse_path_def
      bench_defaults_def BENCH_PATH_def)

lemma load_args_defaults:
  "load_args ieee oc no_matches = Some (Inr \<lparr>la_host = ''127.0.0.1'', la_port = 8080, la_path = ''/bench/'', la_connections = 32,
     la_duration = 5 * 10 ^ 9, la_size = 0\<rparr>)"
  by (simp add: load_args_def no_matches_def arg_value_def arg_literals parse_text_def BENCH_PATH_def)


section \<open>The command line of the child\<close>

text \<open>
  What the argument crate documents of long options, as far as the server command is concerned: words that are pairs of a declared
  option, each given once, and a value that does not look like an option, and possibly the flag, are
  taken as just that.
\<close>

definition option_words :: "(string \<times> string) list \<Rightarrow> string list" where
  "option_words pairs = concat (map (\<lambda>(name, t). [''--'' @ name, t]) pairs)"

definition serve_options :: "string list" where
  "serve_options = [''engine'', ''port'', ''path'', ''request-buffer'']"

definition looks_like_option :: "string \<Rightarrow> bool" where
  "looks_like_option t \<longleftrightarrow> t \<noteq> [] \<and> hd t = CHR ''-''"

definition clap_documented :: "(string list \<Rightarrow> (string \<times> matches) option) \<Rightarrow> bool" where
  "clap_documented clap \<longleftrightarrow>
     (\<forall>exe pairs cache. distinct (map fst pairs) \<and> ''engine'' \<in> fst ` set pairs \<and> fst ` set pairs \<subseteq> set serve_options \<and>
        (\<forall>t \<in> snd ` set pairs. \<not> looks_like_option t) \<longrightarrow>
        clap (exe # ''serve'' # option_words pairs @ (if cache then [''--kernel-cache''] else [])) =
          Some (''serve'', \<lparr>given = map_of pairs, flags = (if cache then {''kernel-cache''} else {})\<rparr>))"

text \<open>
  C37: The child process serves what the sweep asked for.  The words with which \<open>spawn\<close> starts its own executable parse,
  through the declarations of the same program, to the server command with the engine, the port and the path of the
  sweep, the default receive buffer, and the kernel cache exactly when it was asked for and the engine has one.
\<close>

theorem child_command_line:
  assumes "clap_documented clap" and "\<not> looks_like_option (so_path options)"
  shows "cli_parse clap F oc (spawn_args exe engine tcp_port options) =
    Some (Inr (Serve \<lparr>sa_engine = engine, sa_port = tcp_port, sa_path = so_path options, sa_request_buffer = 16384,
      sa_kernel_cache = (so_kernel_cache options \<and> engine = Engine_Httpsys)\<rparr>))"
proof -
  let ?cache = "so_kernel_cache options \<and> engine = Engine_Httpsys"
  let ?pairs = "[(''engine'', label engine), (''port'', decimal (unat tcp_port)), (''path'', so_path options)]"
  have words: "spawn_args exe engine tcp_port options =
      exe # ''serve'' # option_words ?pairs @ (if ?cache then [''--kernel-cache''] else [])"
    by (simp add: spawn_args_def option_words_def)
  have "\<not> looks_like_option (label engine)" by (cases engine) (simp_all add: looks_like_option_def)
  moreover have "\<not> looks_like_option (decimal (unat tcp_port))"
    by (simp add: looks_like_option_def decimal_hd_not_minus)
  ultimately have "clap (spawn_args exe engine tcp_port options) =
      Some (''serve'', \<lparr>given = map_of ?pairs, flags = (if ?cache then {''kernel-cache''} else {})\<rparr>)"
    using assms unfolding words clap_documented_def
    by (elim allE [of _ exe] allE [of _ ?pairs] allE [of _ ?cache]) (simp add: serve_options_def)
  moreover have "parse_engine (label engine) = Some (Inr engine)" by (cases engine) (simp_all add: parse_engine_def)
  ultimately show ?thesis
    by (simp add: cli_parse_def cli_command_def serve_args_def arg_value_def parse_u16_decimal parse_text_def arg_literals)
qed

text \<open>A reader of long options with that behaviour.\<close>

fun read_options :: "string list \<Rightarrow> matches \<Rightarrow> matches option" where
  "read_options [] m = Some m"
| "read_options (w # ws) m =
     (if w = ''--kernel-cache'' then read_options ws (m\<lparr>flags := insert ''kernel-cache'' (flags m)\<rparr>)
      else case ws of
        [] \<Rightarrow> None
      | t # ws' \<Rightarrow> if take 2 w = ''--'' then read_options ws' (m\<lparr>given := (given m)(drop 2 w \<mapsto> t)\<rparr>) else None)"

definition plain_clap :: "string list \<Rightarrow> (string \<times> matches) option" where
  "plain_clap argv =
     (case argv of exe # name # ws \<Rightarrow> map_option (\<lambda>m. (name, m)) (read_options ws no_matches) | _ \<Rightarrow> None)"

lemma read_options_words:
  assumes "''kernel-cache'' \<notin> fst ` set pairs"
  shows "read_options (option_words pairs @ ws) m = read_options ws (m\<lparr>given := given m ++ map_of (rev pairs)\<rparr>)"
  using assms
proof (induction pairs arbitrary: m)
  case (Cons p pairs)
  obtain name t where p: "p = (name, t)" by (cases p)
  have "name \<noteq> ''kernel-cache''" using Cons.prems p by auto
  then show ?case using Cons by (simp add: p option_words_def map_add_assoc)
qed (simp add: option_words_def)

lemma plain_clap_documented: "clap_documented plain_clap"
  unfolding clap_documented_def
proof (intro allI impI)
  fix exe :: string and pairs :: "(string \<times> string) list" and cache
  assume ok: "distinct (map fst pairs) \<and> ''engine'' \<in> fst ` set pairs \<and> fst ` set pairs \<subseteq> set serve_options \<and>
    (\<forall>t \<in> snd ` set pairs. \<not> looks_like_option t)"
  then have "''kernel-cache'' \<notin> fst ` set pairs" by (auto simp: serve_options_def)
  moreover have "map_of (rev pairs) = map_of pairs" using ok by (subst map_of_inject_set) (simp_all add: rev_map [symmetric])
  ultimately show "plain_clap (exe # ''serve'' # option_words pairs @ (if cache then [''--kernel-cache''] else [])) =
      Some (''serve'', \<lparr>given = map_of pairs, flags = (if cache then {''kernel-cache''} else {})\<rparr>)"
    by (simp add: plain_clap_def read_options_words no_matches_def)
qed

theorem child_command_line_witness:
  "\<forall>F. cli_parse plain_clap F True (spawn_args ''httpbench.exe'' Engine_Httpsys 8080 (lab_options\<lparr>so_kernel_cache := True\<rparr>)) =
     Some (Inr (Serve \<lparr>sa_engine = Engine_Httpsys, sa_port = 8080, sa_path = ''/bench/'', sa_request_buffer = 16384,
       sa_kernel_cache = True\<rparr>))"
proof
  fix F
  have "\<not> looks_like_option (so_path (lab_options\<lparr>so_kernel_cache := True\<rparr>))"
    by (simp add: looks_like_option_def lab_options_def)
  from child_command_line [OF plain_clap_documented this, of F True "''httpbench.exe''" Engine_Httpsys 8080]
  show "cli_parse plain_clap F True (spawn_args ''httpbench.exe'' Engine_Httpsys 8080 (lab_options\<lparr>so_kernel_cache := True\<rparr>)) =
     Some (Inr (Serve \<lparr>sa_engine = Engine_Httpsys, sa_port = 8080, sa_path = ''/bench/'', sa_request_buffer = 16384,
       sa_kernel_cache = True\<rparr>))"
    by (simp add: lab_options_def)
qed

end
