(* ===== verification/Bench_Tests.thy ===== *)
theory Bench_Tests
  imports Bench_Cli
begin

text \<open>
  The unit tests of the benchmark tool, run on the model with the arithmetic of IEEE 754.  Each definition is one \<open>#[test]\<close> function
  (or a helper of the tests) of \<open>tools/httpbench/src\<close> under its name; the theorems say that they pass.  Left out are the
  tests of the argument crate's own consistency, of a live process and of the file the plotting crate
  writes.
\<close>

section \<open>fmt.rs\<close>

definition byte_sizes_use_binary_units :: bool where
  "byte_sizes_use_binary_units \<longleftrightarrow>
     fmt_bytes ieee (F64 0x4080000000000000) = ''512 B'' \<and> fmt_bytes ieee (F64 0x4090000000000000) = ''1 KiB'' \<and>
     fmt_bytes ieee (fp_mul ieee (fp_mul ieee (F64 0x4020000000000000) f_KIB) f_KIB) = ''8 MiB''"

definition latency_precision_tracks_magnitude :: bool where
  "latency_precision_tracks_magnitude \<longleftrightarrow>
     fmt_millis ieee (F64 0x3FBF7CED916872B0) = ''0.12 ms'' \<and> fmt_millis ieee (F64 0x4028AE147AE147AE) = ''12.3 ms'' \<and>
     fmt_millis ieee (F64 0x4093480000000000) = ''1234 ms''"

definition rates_are_abbreviated :: bool where
  "rates_are_abbreviated \<longleftrightarrow>
     fmt_rate ieee (F64 0x408DB00000000000) = ''950'' \<and> fmt_rate ieee (F64 0x40C89C0000000000) = ''13k'' \<and>
     fmt_rate ieee (F64 0x41424F8000000000) = ''2.4M''"

definition byte_sizes_parse_with_and_without_units :: "bool \<Rightarrow> bool" where
  "byte_sizes_parse_with_and_without_units oc \<longleftrightarrow>
     parse_bytes oc ''1024'' = Some (Inr 1024) \<and> parse_bytes oc ''4k'' = Some (Inr 4096) \<and>
     parse_bytes oc ''4KiB'' = Some (Inr 4096) \<and> parse_bytes oc ''8MiB'' = Some (Inr (8 * 1024 * 1024)) \<and>
     parse_bytes oc '' 2 m '' = Some (Inr (2 * 1024 * 1024)) \<and> (\<exists>e. parse_bytes oc ''banana'' = Some (Inl e))"

section \<open>cpu.rs, load.rs\<close>

text \<open>\<open>(x - y).abs() < 1e-9\<close>\<close>

definition about :: "f64 \<Rightarrow> f64 \<Rightarrow> bool" where
  "about x y \<longleftrightarrow> f_lt (f_abs (fp_sub ieee x y)) (F64 0x3E112E0BE826D695)"

definition filetime_ticks_are_hundred_nanoseconds :: bool where
  "filetime_ticks_are_hundred_nanoseconds \<longleftrightarrow> as_duration \<lparr>dwLowDateTime = 10000000, dwHighDateTime = 0\<rparr> = 10 ^ 9"

definition filetime_uses_the_high_word :: bool where
  "filetime_uses_the_high_word \<longleftrightarrow> as_duration \<lparr>dwLowDateTime = 0, dwHighDateTime = 1\<rparr> = 2 ^ 32 * 100"

definition cores_is_cpu_time_over_wall_time :: "nat \<Rightarrow> bool" where
  "cores_is_cpu_time_over_wall_time t \<longleftrightarrow>
     about (cores_between ieee \<lparr>cs_at = t, cs_cpu = 0\<rparr> \<lparr>cs_at = t + 2 * 10 ^ 9, cs_cpu = 3 * 10 ^ 9\<rparr>) (F64 0x3FF8000000000000)"

definition result_with :: "nat list \<Rightarrow> Duration \<Rightarrow> LoadResult" where
  "result_with latencies_ns elapsed = \<lparr>lr_elapsed = elapsed, lr_errors = 0, lr_latencies_ns = sort latencies_ns\<rparr>"

definition percentiles_index_the_sorted_samples :: bool where
  "percentiles_index_the_sorted_samples \<longleftrightarrow>
     (let r = result_with (map (\<lambda>n. n * 1000000) [1..<101]) (10 ^ 9)
      in about (percentile_ms ieee r (F64 0x3FE0000000000000)) (F64 0x4049800000000000) \<and>
         about (percentile_ms ieee r (F64 0x3FEFAE147AE147AE)) (F64 0x4059000000000000) \<and>
         about (percentile_ms ieee r (F64 0x3FF0000000000000)) (F64 0x4059000000000000))"

definition empty_results_report_zero_rather_than_panicking :: bool where
  "empty_results_report_zero_rather_than_panicking \<longleftrightarrow>
     (let r = load_result_default
      in requests r = 0 \<and> requests_per_second ieee r = f_0 \<and> percentile_ms ieee r f_half = f_0 \<and> mean_ms ieee r = f_0)"

definition throughput_and_mean_are_arithmetic :: bool where
  "throughput_and_mean_are_arithmetic \<longleftrightarrow>
     (let r = result_with [1000000, 3000000] (2 * 10 ^ 9)
      in about (requests_per_second ieee r) f_1 \<and> about (mean_ms ieee r) f_2)"

section \<open>main.rs, servers.rs\<close>

definition seconds_parse_with_and_without_the_suffix :: bool where
  "seconds_parse_with_and_without_the_suffix \<longleftrightarrow>
     parse_seconds ieee ''3'' = Some (Inr (3 * 10 ^ 9)) \<and> parse_seconds ieee ''2.5s'' = Some (Inr (2500 * 10 ^ 6)) \<and>
     (\<exists>e. parse_seconds ieee ''-1'' = Some (Inl e)) \<and> (\<exists>e. parse_seconds ieee ''soon'' = Some (Inl e))"

definition bench_defaults_sweep_both_axes :: "bool \<Rightarrow> bool" where
  "bench_defaults_sweep_both_axes oc \<longleftrightarrow>
     (case cli_command ieee oc ''bench'' no_matches of
        Some (Inr (Bench args)) \<Rightarrow>
          ba_connections args \<noteq> [] \<and> hd (ba_connections args) = 1 \<and> ba_sizes args \<noteq> [] \<and>
          last (ba_sizes args) = 8 * 1024 * 1024 \<and> ba_ports args = [8080, 8081] \<and> \<not> ba_kernel_cache args
      | _ \<Rightarrow> False)"

definition serve_requires_an_engine :: "bool \<Rightarrow> bool" where
  "serve_requires_an_engine oc \<longleftrightarrow>
     (case cli_command ieee oc ''serve'' no_matches of Some (Inl e) \<Rightarrow> True | _ \<Rightarrow> False) \<and>
     (case cli_command ieee oc ''serve'' (no_matches\<lparr>given := [''engine'' \<mapsto> ''axum'']\<rparr>) of
        Some (Inr (Serve args)) \<Rightarrow> sa_engine args = Engine_Axum | _ \<Rightarrow> False)"

definition engine_labels_match_the_cli_values :: bool where
  "engine_labels_match_the_cli_values \<longleftrightarrow> label Engine_Httpsys = ''httpsys'' \<and> label Engine_Axum = ''axum''"

definition access_denied_explains_the_url_acl :: "(u32 \<Rightarrow> string) \<Rightarrow> bool" where
  "access_denied_explains_the_url_acl message \<longleftrightarrow>
     (let hint = url_acl_hint message (Win32 5) 8080 BENCH_PATH
      in sublist ''netsh http add urlacl url=http://+:8080/'' hint \<and> sublist ''Temporary_Listen_Addresses'' hint)"

definition other_errors_are_passed_through :: "(u32 \<Rightarrow> string) \<Rightarrow> bool" where
  "other_errors_are_passed_through message \<longleftrightarrow>
     (let hint = url_acl_hint message (Win32 87) 8080 BENCH_PATH in \<not> sublist ''netsh'' hint)"

definition shutdown_is_a_sibling_of_the_bench_path :: bool where
  "shutdown_is_a_sibling_of_the_bench_path \<longleftrightarrow>
     shutdown_path ''/bench/'' = ''/shutdown/'' \<and>
     shutdown_path ''/Temporary_Listen_Addresses/bench/'' = ''/Temporary_Listen_Addresses/shutdown/''"

section \<open>chart.rs, sweep.rs\<close>

definition test_chart :: "(f64 \<Rightarrow> string) \<Rightarrow> Series list \<Rightarrow> Chart" where
  "test_chart display series =
     \<lparr>ch_caption = ''test'', ch_subtitle = ''sub'', ch_x_desc = ''x'', ch_y_desc = ''y'', ch_y_log = False,
      ch_x_format = display, ch_y_format = display, ch_series = series\<rparr>"

definition log_padding_never_reaches_zero :: bool where
  "log_padding_never_reaches_zero \<longleftrightarrow>
     (case pad ieee f_1 f_100 True f_1 of (lo, hi) \<Rightarrow> f_lt f_0 lo \<and> f_lt f_100 hi)"

definition flat_linear_data_still_gets_a_range :: bool where
  "flat_linear_data_still_gets_a_range \<longleftrightarrow>
     (case pad ieee (F64 0x4014000000000000) (F64 0x4014000000000000) False f_1 of (lo, hi) \<Rightarrow> f_lt lo hi)"

definition linear_y_axis_starts_at_zero :: "(f64 \<Rightarrow> string) \<Rightarrow> bool" where
  "linear_y_axis_starts_at_zero display \<longleftrightarrow>
     (case bounds ieee (test_chart display [\<lparr>se_name = ''a'', se_color = color_of Engine_Httpsys, se_dashed = False,
          se_points = [(f_1, f_10), (f_2, F64 0x4034000000000000)]\<rparr>]) of
        Inr (x_min, x_max, y_min, y_max) \<Rightarrow> y_min = f_0 \<and> f_lt (F64 0x4034000000000000) y_max
      | Inl e \<Rightarrow> False)"

definition empty_charts_are_an_error_not_a_panic :: "(f64 \<Rightarrow> string) \<Rightarrow> bool" where
  "empty_charts_are_an_error_not_a_panic display \<longleftrightarrow> isl (bounds ieee (test_chart display []))"

definition test_sample :: "Engine \<Rightarrow> f64 \<Rightarrow> f64 \<Rightarrow> Sample" where
  "test_sample engine x rps =
     \<lparr>sm_engine = engine, sm_x = x, sm_body_bytes = 1024, sm_connections = fp_to_usize ieee x, sm_requests = 100, sm_rps = rps,
      sm_mean_ms = f_1, sm_p50_ms = f_1, sm_p99_ms = f_2, sm_cores = f_half, sm_cpu_us_per_request = f_10\<rparr>"

definition payload_has_the_requested_length :: bool where
  "payload_has_the_requested_length \<longleftrightarrow> list_all (\<lambda>n. length (payload n) = n) [0, 1, 7, 8, 4096, 4097]"

definition series_are_sorted_and_filtered_by_engine :: bool where
  "series_are_sorted_and_filtered_by_engine \<longleftrightarrow>
     (let samples = [test_sample Engine_Httpsys (F64 0x4020000000000000) (F64 0x4054000000000000),
            test_sample Engine_Axum (F64 0x4010000000000000) (F64 0x4044000000000000),
            test_sample Engine_Httpsys f_2 (F64 0x4034000000000000)]
      in series_for samples Engine_Httpsys sm_rps =
           [(f_2, F64 0x4034000000000000), (F64 0x4020000000000000, F64 0x4054000000000000)])"

definition best_picks_the_maximum_per_engine :: bool where
  "best_picks_the_maximum_per_engine \<longleftrightarrow>
     (let samples = [test_sample Engine_Httpsys f_1 f_10, test_sample Engine_Httpsys f_2 (F64 0x4056800000000000),
            test_sample Engine_Axum f_1 (F64 0x4049000000000000)]
      in map sm_rps (best samples sm_rps) = [F64 0x4056800000000000, F64 0x4049000000000000])"

definition ingest_throughput_scales_with_body_size :: bool where
  "ingest_throughput_scales_with_body_size \<longleftrightarrow>
     about (sample_mib_per_second ieee ((test_sample Engine_Httpsys f_1 f_KIB)\<lparr>sm_body_bytes := 1024 * 1024\<rparr>)) f_KIB"

section \<open>All tests pass\<close>

lemmas float_eval = ieee_eval float_order_eval f_0_def f_1_def f_2_def f_10_def f_100_def f_1e3_def f_1e6_def f_KIB_def f_MIB_def
  f_half_def f_abs_def

lemma fmt_tests: "byte_sizes_use_binary_units" "latency_precision_tracks_magnitude" "rates_are_abbreviated"
  by (simp_all add: byte_sizes_use_binary_units_def latency_precision_tracks_magnitude_def rates_are_abbreviated_def
      fmt_bytes_def fmt_millis_def fmt_rate_def float_eval decimal_eval)

lemma cpu_tests: "filetime_ticks_are_hundred_nanoseconds" "filetime_uses_the_high_word" "cores_is_cpu_time_over_wall_time t"
  by (simp_all add: filetime_ticks_are_hundred_nanoseconds_def filetime_uses_the_high_word_def as_duration_def Let_def
      cores_is_cpu_time_over_wall_time_def about_def cores_between_def cpu_between_def float_eval)

lemma sort_latencies: "sort (map (\<lambda>n. n * 1000000) [1..<101]) = map (\<lambda>n. n * 1000000 :: nat) [1..<101]"
  by (intro sort_key_id_if_sorted) (simp add: sorted_iff_nth_mono)

lemma percentile_value:
  assumes "ns = map (\<lambda>n. n * 1000000) [1..<101]" and "fp_to_usize ieee (fp_mul ieee (fp_of_nat ieee 100) q) = k"
  shows "percentile_ms ieee (result_with ns elapsed) q = fp_div ieee (fp_of_nat ieee ((min k 99 + 1) * 1000000)) f_1e6"
proof -
  have l: "length ns = 100" by (simp add: assms(1))
  moreover have "sort ns = ns" unfolding assms(1) by (rule sort_latencies)
  moreover have "ns \<noteq> []" using l by auto
  moreover have "ns ! min k 99 = (min k 99 + 1) * 1000000" unfolding assms(1) by (subst nth_map) auto
  ultimately show ?thesis using assms(2) by (simp add: percentile_ms_def result_with_def)
qed

lemma percentile_tests: "percentiles_index_the_sorted_samples"
  unfolding percentiles_index_the_sorted_samples_def Let_def
proof (intro conjI)
  let ?r = "result_with (map (\<lambda>n. n * 1000000) [1..<101]) (10 ^ 9)"
  show "about (percentile_ms ieee ?r (F64 0x3FE0000000000000)) (F64 0x4049800000000000)"
    by (subst percentile_value [OF refl, of _ 50]) (simp_all add: about_def float_eval)
  show "about (percentile_ms ieee ?r (F64 0x3FEFAE147AE147AE)) (F64 0x4059000000000000)"
    by (subst percentile_value [OF refl, of _ 99]) (simp_all add: about_def float_eval)
  show "about (percentile_ms ieee ?r (F64 0x3FF0000000000000)) (F64 0x4059000000000000)"
    by (subst percentile_value [OF refl, of _ 100]) (simp_all add: about_def float_eval)
qed

lemma two_results:
  "requests_per_second ieee (result_with [1000000, 3000000] (2 * 10 ^ 9)) = f_1"
  "mean_ms ieee (result_with [1000000, 3000000] elapsed) = f_2"
  by (simp add: requests_per_second_def requests_def result_with_def float_eval) (simp add: mean_ms_def result_with_def float_eval)

lemma load_tests: "empty_results_report_zero_rather_than_panicking" "throughput_and_mean_are_arithmetic"
  unfolding throughput_and_mean_are_arithmetic_def Let_def two_results
  by (simp_all add: empty_results_report_zero_rather_than_panicking_def percentile_ms_def mean_ms_def requests_per_second_def
      requests_def load_result_default_def about_def float_eval)

lemma trimmed_texts: "trim '' 2 m '' = ''2 m''" "trim ''2 '' = ''2''" "trim ''banana'' = ''banana''"
  using trim_blank(2) [of "''2 m''"] trim_blank(2) [of "''2''"]
  by (simp_all add: trim_def trim_blank(1) trim_visible_start trim_visible_end)

lemma suffix_rev: "suffix x y \<longleftrightarrow> take (length x) (rev y) = rev x"
  by (metis suffix_to_prefix take_is_prefix append_eq_conv_conj length_rev prefix_def)

lemma byte_size_tests: "byte_sizes_parse_with_and_without_units oc"
proof -
  have "(to_ascii_lowercase ''k'', 1024) \<in> set byte_units"
    by (simp add: to_ascii_lowercase_def to_ascii_lower_def byte_units_def)
  from parse_bytes_unit [OF this, of 4 "''4k''" oc] have "parse_bytes oc ''4k'' = Some (Inr 4096)"
    by (simp add: decimal_eval U64_MAX_def)
  moreover from parse_bytes_unit [OF unit_texts(1), of 1024 "''1024''" oc] have "parse_bytes oc ''1024'' = Some (Inr 1024)"
    by (simp add: decimal_eval U64_MAX_def)
  moreover have "parse_bytes oc '' 2 m '' = Some (Inr 2097152)" "\<exists>e. parse_bytes oc ''banana'' = Some (Inl e)"
    by (simp_all add: parse_bytes_def trimmed_texts to_ascii_lowercase_def to_ascii_lower_def Let_def suffix_rev strip_suffix_def
        is_ascii_alphabetic_def U64_MAX_def parse_uint_def digit_val_def)
  ultimately show ?thesis
    by (simp add: byte_sizes_parse_with_and_without_units_def parse_bytes_literals)
qed

lemma second_texts:
  "trim_end_matches (CHR ''s'') (trim ''2.5s'') = ''2.5''" "trim_end_matches (CHR ''s'') (trim ''-1'') = ''-1''"
  "trim_end_matches (CHR ''s'') (trim ''soon'') = ''soon''"
  by (simp_all add: trim_visible trim_end_matches_def)

lemma cli_tests:
  "seconds_parse_with_and_without_the_suffix" "bench_defaults_sweep_both_axes oc" "serve_requires_an_engine oc"
proof -
  show "seconds_parse_with_and_without_the_suffix"
    by (simp add: seconds_parse_with_and_without_the_suffix_def parse_seconds_def seconds_texts second_texts ieee_eval
        ieee_parse_eval float_order_eval f_0_def)
  show "bench_defaults_sweep_both_axes oc"
    by (simp add: bench_defaults_sweep_both_axes_def cli_command_def bench_args_defaults bench_defaults_def)
  show "serve_requires_an_engine oc"
    by (simp add: serve_requires_an_engine_def cli_command_def serve_args_def arg_value_def arg_then_def no_matches_def
        arg_literals parse_text_def parse_engine_def BENCH_PATH_def)
qed

lemma path_tests: "engine_labels_match_the_cli_values" "shutdown_is_a_sibling_of_the_bench_path"
  by (simp_all add: engine_labels_match_the_cli_values_def shutdown_is_a_sibling_of_the_bench_path_def shutdown_path_def
      trim_end_matches_def rsplit_once_def)

lemma sublist_inside: "x = a @ s @ b \<Longrightarrow> sublist s x"
  by auto

lemma access_denied_test: "access_denied_explains_the_url_acl message"
proof -
  let ?hint = "url_acl_hint message (Win32 5) 8080 BENCH_PATH"
  let ?before = "''cannot reserve http://+:8080'' @ BENCH_PATH @ '' ('' @ fmt_error message (Win32 5) @ '').'' @ [CHR 0x0A] @
    ''Either run once as administrator:'' @ [CHR 0x0A] @ ''    ''"
  let ?after = "'' user=Everyone'' @ [CHR 0x0A] @ ''or reuse the reservation every user already has:'' @ [CHR 0x0A] @ ''    '' @
    ''--port 80 --path /Temporary_Listen_Addresses/bench/''"
  have "?hint = ?before @ ''netsh http add urlacl url=http://+:8080/'' @ ?after"
    by (simp add: url_acl_hint_def decimal_eval)
  moreover have "suffix ''Temporary_Listen_Addresses/bench/'' ?hint"
    by (simp add: url_acl_hint_def Let_def suffix_append suffix_Cons)
  then have "sublist ''Temporary_Listen_Addresses'' ?hint" by (auto simp: suffix_def intro: sublist_inside)
  ultimately show ?thesis unfolding access_denied_explains_the_url_acl_def Let_def by (metis sublist_inside)
qed

lemma other_errors_test: "\<not> sublist ''netsh'' (trim (message 87)) \<Longrightarrow> other_errors_are_passed_through message"
  by (simp add: other_errors_are_passed_through_def url_acl_hint_def BENCH_PATH_def fmt_error_def Let_def decimal_eval sublist_Cons_right)

lemma padded:
  "pad ieee f_1 f_100 True f_1 = (F64 0x3FE7B425ED097B42, F64 0x4060E00000000000)"
  "pad ieee (F64 0x4014000000000000) (F64 0x4014000000000000) False f_1 = (F64 0x4010000000000000, F64 0x4018000000000000)"
  by (simp_all add: pad_def float_eval f_max_def f_MIN_POSITIVE_def f_1_35_def f_EPSILON_def)

lemma chart_tests:
  "log_padding_never_reaches_zero" "flat_linear_data_still_gets_a_range" "linear_y_axis_starts_at_zero display"
  "empty_charts_are_an_error_not_a_panic display"
  unfolding log_padding_never_reaches_zero_def flat_linear_data_still_gets_a_range_def padded
  by (simp_all add: linear_y_axis_starts_at_zero_def empty_charts_are_an_error_not_a_panic_def bounds_def chart_points_def
      test_chart_def float_eval f_max_def f_min_def f_INFINITY_def f_NEG_INFINITY_def f_1_35_def f_1_08_def)

lemma sample_tests:
  "payload_has_the_requested_length" "series_are_sorted_and_filtered_by_engine" "best_picks_the_maximum_per_engine"
  "ingest_throughput_scales_with_body_size"
  by (simp_all add: payload_has_the_requested_length_def payload_length series_are_sorted_and_filtered_by_engine_def series_for_def
      best_picks_the_maximum_per_engine_def best_engines ingest_throughput_scales_with_body_size_def sample_mib_per_second_def
      test_sample_def about_def float_eval)

text \<open>
  the unit tests of the benchmark tool pass on the model: under IEEE 754 arithmetic every assertion of the tests of
  \<open>fmt.rs\<close>, \<open>cpu.rs\<close>, \<open>load.rs\<close>, \<open>main.rs\<close>, \<open>servers.rs\<close>, \<open>chart.rs\<close> and \<open>sweep.rs\<close> holds,
  whether or not the build checks overflow and whatever the clock read, provided the system's text for error 87 does not
  mention \<open>netsh\<close>.
\<close>

lemma bench_unit_tests:
  assumes "\<not> sublist ''netsh'' (trim (message 87))"
  shows "byte_sizes_use_binary_units \<and> latency_precision_tracks_magnitude \<and> rates_are_abbreviated \<and>
    byte_sizes_parse_with_and_without_units oc \<and>
    filetime_ticks_are_hundred_nanoseconds \<and> filetime_uses_the_high_word \<and> cores_is_cpu_time_over_wall_time t \<and>
    percentiles_index_the_sorted_samples \<and> empty_results_report_zero_rather_than_panicking \<and>
      throughput_and_mean_are_arithmetic \<and>
    seconds_parse_with_and_without_the_suffix \<and> bench_defaults_sweep_both_axes oc \<and> serve_requires_an_engine oc \<and>
    engine_labels_match_the_cli_values \<and> access_denied_explains_the_url_acl message \<and>
      other_errors_are_passed_through message \<and> shutdown_is_a_sibling_of_the_bench_path \<and>
    log_padding_never_reaches_zero \<and> flat_linear_data_still_gets_a_range \<and> linear_y_axis_starts_at_zero display \<and>
      empty_charts_are_an_error_not_a_panic display \<and>
    payload_has_the_requested_length \<and> series_are_sorted_and_filtered_by_engine \<and> best_picks_the_maximum_per_engine \<and>
      ingest_throughput_scales_with_body_size"
  using other_errors_test [of message, OF assms]
  by (simp only: fmt_tests byte_size_tests cpu_tests percentile_tests load_tests cli_tests path_tests access_denied_test
      chart_tests sample_tests simp_thms)

end
