(* ===== verification/Httpsys_Tests.thy ===== *)
theory Httpsys_Tests
  imports Httpsys_Server
begin

text \<open>
  The unit tests of the crate, run on the model.  Each definition below is one \<open>#[test]\<close> function of \<open>crates/httpsys/src\<close>, under
  its name, with its assertions as a conjunction; the theorem at the end says that all of them pass.  They pin the
  definitions to what the authors of the code expect of it.  The size of \<open>HTTP_REQUEST_V2\<close>, the system's text for error 5 and the
  \<open>HRESULT\<close> encoding are parameters, as in the model; the queue behind the pools is the concrete one.  Where a test compares
  addresses, the model compares the buffers and that none was allocated.
\<close>

section \<open>buffer.rs\<close>

definition capacity_is_at_least_the_header_block :: "nat \<Rightarrow> bool" where
  "capacity_is_at_least_the_header_block sz \<longleftrightarrow> sz < unat (capacity (request_buffer_new sz 0))"

definition capacity_rounds_up_to_whole_words :: "nat \<Rightarrow> bool" where
  "capacity_rounds_up_to_whole_words sz \<longleftrightarrow> capacity (request_buffer_new sz (16 * 1024)) = 16 * 1024"

definition buffers_are_recycled :: "nat \<Rightarrow> bool" where
  "buffers_are_recycled sz \<longleftrightarrow>
     (let pool = buffer_pool_new list_queue_new 2 4096 4096; (b, pool) = buffer_pool_take sz pool;
          ptr = map_option prepare (pooled_deref b);
          pool = pooled_buffer_drop b pool; queued = length (aq_items (bp_free pool)); (again, pool) = buffer_pool_take sz pool
      in map_option prepare (pooled_deref again) = ptr \<and> queued = 1 \<and> length (aq_items (bp_free pool)) = 0)"

definition surplus_buffers_are_dropped_not_queued :: "nat \<Rightarrow> bool" where
  "surplus_buffers_are_dropped_not_queued sz \<longleftrightarrow>
     (let pool = buffer_pool_new list_queue_new 1 4096 4096; (a, pool) = buffer_pool_take sz pool;
          (b, pool) = buffer_pool_take sz pool; pool = pooled_buffer_drop a pool; pool = pooled_buffer_drop b pool
      in length (aq_items (bp_free pool)) = 1)"

definition growing_replaces_the_allocation_only_when_needed :: "nat \<Rightarrow> bool" where
  "growing_replaces_the_allocation_only_when_needed sz \<longleftrightarrow>
     (let buffer = request_buffer_new sz (16 * 1024); before = capacity buffer;
          small = grow_to sz 1024 buffer; big = grow_to sz (64 * 1024) small
      in capacity small = before \<and> capacity big = 64 * 1024)"

definition body_pool_retains_small_buffers_and_drops_oversized_ones :: bool where
  "body_pool_retains_small_buffers_and_drops_oversized_ones \<longleftrightarrow>
     (let pool = body_pool_new list_queue_new 4 1024; (v, pool) = body_pool_take 512 pool; pool = pooled_vec_drop v pool;
          first = length (aq_items (dp_free pool)); (v, pool) = body_pool_take 8192 pool; pool = pooled_vec_drop v pool
      in first = 1 \<and> length (aq_items (dp_free pool)) = 0)"

definition body_pool_hands_back_empty_buffers_with_enough_room :: bool where
  "body_pool_hands_back_empty_buffers_with_enough_room \<longleftrightarrow>
     (let pool = body_pool_new list_queue_new 2 (2 ^ 20); (first, pool) = body_pool_take 4096 pool;
          first = map_option (vec_extend (replicate 4096 1)) (pooled_vec_deref first);
          pool = pooled_vec_drop \<lparr>pv_vec = first\<rparr> pool; (second, pool) = body_pool_take 1024 pool
      in case pooled_vec_deref second of None \<Rightarrow> False | Some v \<Rightarrow> vlen v = 0 \<and> 4096 \<le> vcap v)"

section \<open>error.rs, init.rs, request.rs\<close>

definition win32_display_includes_os_message :: "(u32 \<Rightarrow> string) \<Rightarrow> bool" where
  "win32_display_includes_os_message message \<longleftrightarrow> take 14 (fmt_error message (Win32 5)) = ''Win32 error 5:''"

definition check_maps_zero_to_ok :: bool where
  "check_maps_zero_to_ok \<longleftrightarrow> check 0 = Inr () \<and> check 87 = Inl (Win32 87)"

definition hresult_round_trips_to_win32 :: "(u32 \<Rightarrow> u32) \<Rightarrow> bool" where
  "hresult_round_trips_to_win32 to_hresult \<longleftrightarrow> win32_code (error_from_hresult (to_hresult 5)) = Some 5"

definition prefix_gains_a_trailing_slash :: bool where
  "prefix_gains_a_trailing_slash \<longleftrightarrow>
     normalize_prefix ''http://+:8080/test'' = ''http://+:8080/test/'' \<and>
     normalize_prefix ''http://+:8080/test/'' = ''http://+:8080/test/'' \<and>
     normalize_prefix ''http://+:8080/'' = ''http://+:8080/''"

definition known_methods_parse :: bool where
  "known_methods_parse \<longleftrightarrow> method_from_str ''GET'' = Method_Get \<and> method_from_str ''PATCH'' = Method_Patch"

definition extension_method_falls_back_to_other :: bool where
  "extension_method_falls_back_to_other \<longleftrightarrow> method_from_str ''PROPFIND'' = Method_Other ''PROPFIND''"

section \<open>response.rs, server.rs\<close>

definition builders_set_the_expected_fields :: bool where
  "builders_set_the_expected_fields \<longleftrightarrow>
     (let r = with_header ''X-Trace'' ''abc'' (ok_text [104, 101, 108, 108, 111])
      in resp_status r = 200 \<and> resp_body r = [104, 101, 108, 108, 111] \<and>
         resp_content_type r = Some ''text/plain; charset=utf-8'' \<and> resp_headers r = [(''X-Trace'', ''abc'')])"

definition raw_view_points_at_the_body_and_headers :: bool where
  "raw_view_points_at_the_body_and_headers \<longleftrightarrow>
     (let response = with_header ''X-A'' ''1'' (ok_json [123, 125]); view = as_ptr (to_raw response)
      in StatusCode view = 200 \<and> RespEntityChunkCount view = 1 \<and> UnknownHeaderCount view = 1 \<and>
         (case pRespEntityChunks view of
            None \<Rightarrow> False
          | Some c \<Rightarrow> BufferLength c = 2 \<and> pBuffer c = Some (resp_body response)))"

definition empty_body_emits_no_entity_chunk :: bool where
  "empty_body_emits_no_entity_chunk \<longleftrightarrow>
     (let view = as_ptr (to_raw (response_new NO_CONTENT))
      in RespEntityChunkCount view = 0 \<and> pRespEntityChunks view = None)"

definition unknown_status_still_gets_a_reason_phrase :: bool where
  "unknown_status_still_gets_a_reason_phrase \<longleftrightarrow> resp_reason (response_new 599) = ''Unknown''"

definition default_config_is_self_consistent :: "nat option \<Rightarrow> bool" where
  "default_config_is_self_consistent parallelism \<longleftrightarrow>
     (let config = server_config_default parallelism
      in 32 \<le> concurrency config \<and> 2 \<le> io_threads config \<and> 4096 \<le> request_buffer_bytes config \<and>
         request_buffer_bytes config \<le> max_request_buffer_bytes config \<and> 0 < queue_length config \<and>
         request_buffer_bytes config \<le> max_pooled_body_bytes config)"

definition terminal_errors_are_recognised :: bool where
  "terminal_errors_are_recognised \<longleftrightarrow>
     is_terminal (Win32 ERROR_OPERATION_ABORTED) \<and> is_terminal (Win32 ERROR_INVALID_HANDLE) \<and>
     \<not> is_terminal (Win32 234) \<and> \<not> is_terminal (HeadersTooLarge 1)"

section \<open>All tests pass\<close>

lemmas queue_eval = list_queue_new_def aq_pop_def aq_push_def aq_items_def

lemma new_capacity:
  assumes "sz \<le> 4096" and "len \<le> 2 ^ 20" and "8 dvd len" and "sz + 16 \<le> len"
  shows "unat (capacity (request_buffer_new sz len)) = len"
proof -
  have "words (request_buffer_new sz len) * 8 = len"
    using assms new_words_ge(1) [of len sz] new_words_le [of sz len] by (auto simp: request_buffer_new_def Let_def div_ceil_def max_def elim!: dvdE)
  then show ?thesis using assms(2) by (simp add: unat_capacity)
qed

lemma capacity_eq_iff: "n < 2 ^ 32 \<Longrightarrow> capacity b = word_of_nat n \<longleftrightarrow> unat (capacity b) = n"
  by (auto simp: unat_of_nat)

lemma buffer_tests:
  assumes "sz \<le> 4096"
  shows "capacity_is_at_least_the_header_block sz" and "capacity_rounds_up_to_whole_words sz" and "buffers_are_recycled sz"
    and "surplus_buffers_are_dropped_not_queued sz" and "growing_replaces_the_allocation_only_when_needed sz"
proof -
  have cap: "capacity (request_buffer_new sz 16384) = 16384" "capacity (request_buffer_new sz 65536) = 65536"
    using new_capacity [of sz 16384] new_capacity [of sz 65536] assms
      capacity_eq_iff [of 16384 "request_buffer_new sz 16384"] capacity_eq_iff [of 65536 "request_buffer_new sz 65536"] by simp_all
  show "capacity_is_at_least_the_header_block sz"
    using new_words_ge(2) [of sz 0] unat_capacity_new [of 0 sz] assms by (simp add: capacity_is_at_least_the_header_block_def)
  show "capacity_rounds_up_to_whole_words sz" by (simp add: capacity_rounds_up_to_whole_words_def cap)
  show "buffers_are_recycled sz"
    by (simp add: buffers_are_recycled_def buffer_pool_new_def buffer_pool_take_def pooled_buffer_drop_def pooled_deref_def
        queue_eval Let_def)
  show "surplus_buffers_are_dropped_not_queued sz"
    by (simp add: surplus_buffers_are_dropped_not_queued_def buffer_pool_new_def buffer_pool_take_def pooled_buffer_drop_def
        queue_eval Let_def)
  show "growing_replaces_the_allocation_only_when_needed sz"
    by (simp add: growing_replaces_the_allocation_only_when_needed_def grow_to_def cap Let_def)
qed

lemma body_pool_tests:
  "body_pool_retains_small_buffers_and_drops_oversized_ones" "body_pool_hands_back_empty_buffers_with_enough_room"
  by (simp_all add: body_pool_retains_small_buffers_and_drops_oversized_ones_def
      body_pool_hands_back_empty_buffers_with_enough_room_def body_pool_new_def body_pool_take_def pooled_vec_drop_def
      pooled_vec_deref_def queue_eval Let_def vec_defs)

lemma win32_display_test: "trim (message 5) \<noteq> [] \<Longrightarrow> win32_display_includes_os_message message"
  by (simp add: win32_display_includes_os_message_def fmt_error_def Let_def decimal.simps) code_simp

lemma error_tests:
  assumes "\<And>c. to_hresult c AND 0xFFFF = c AND 0xFFFF"
  shows "check_maps_zero_to_ok" and "hresult_round_trips_to_win32 to_hresult"
  using hresult_round_trip [of to_hresult 5] assms
  by (simp_all add: check_maps_zero_to_ok_def check_def hresult_round_trips_to_win32_def)

lemma text_tests:
  "prefix_gains_a_trailing_slash" "known_methods_parse" "extension_method_falls_back_to_other"
  by (simp_all add: prefix_gains_a_trailing_slash_def normalize_prefix_def known_methods_parse_def
      extension_method_falls_back_to_other_def method_from_str_def)

lemma response_tests:
  "builders_set_the_expected_fields" "raw_view_points_at_the_body_and_headers" "empty_body_emits_no_entity_chunk"
  "unknown_status_still_gets_a_reason_phrase"
  by (simp_all add: builders_set_the_expected_fields_def raw_view_points_at_the_body_and_headers_def
      empty_body_emits_no_entity_chunk_def unknown_status_still_gets_a_reason_phrase_def ok_text_def ok_json_def with_body_def
      with_content_type_def with_header_def response_new_def OK_def NO_CONTENT_def reason_phrase_def to_raw_def as_ptr_def
      zeroed_response_def Let_def as_u16_def as_u32_def)

lemma server_tests:
  assumes "parallelism \<noteq> Some 0"
  shows "default_config_is_self_consistent parallelism" and "terminal_errors_are_recognised"
  using assms
  by (auto simp: default_config_is_self_consistent_def server_config_default_def terminal_errors_are_recognised_def is_terminal_def
      ERROR_OPERATION_ABORTED_def ERROR_INVALID_HANDLE_def ERROR_NO_MORE_FILES_def Let_def split: option.split)

text \<open>
  The crate's own unit tests pass on the model.  For any size of \<open>HTTP_REQUEST_V2\<close> up to a page, any encoding of
  \<open>HRESULT\<close>s that keeps the low half, any system text for error 5 that is not blank and any number of cores but zero, every test
  function of the crate holds of the definitions of this development.
\<close>

lemma httpsys_unit_tests:
  assumes "sz \<le> 4096" and "\<And>c. to_hresult c AND 0xFFFF = c AND 0xFFFF" and "trim (message 5) \<noteq> []"
    and "parallelism \<noteq> Some 0"
  shows "capacity_is_at_least_the_header_block sz \<and> capacity_rounds_up_to_whole_words sz \<and> buffers_are_recycled sz \<and>
    surplus_buffers_are_dropped_not_queued sz \<and> growing_replaces_the_allocation_only_when_needed sz \<and>
    body_pool_retains_small_buffers_and_drops_oversized_ones \<and> body_pool_hands_back_empty_buffers_with_enough_room \<and>
    win32_display_includes_os_message message \<and> check_maps_zero_to_ok \<and> hresult_round_trips_to_win32 to_hresult \<and>
    prefix_gains_a_trailing_slash \<and> known_methods_parse \<and> extension_method_falls_back_to_other \<and>
    builders_set_the_expected_fields \<and> raw_view_points_at_the_body_and_headers \<and> empty_body_emits_no_entity_chunk \<and>
    unknown_status_still_gets_a_reason_phrase \<and> default_config_is_self_consistent parallelism \<and>
    terminal_errors_are_recognised"
  using buffer_tests [OF assms(1)] body_pool_tests win32_display_test [of message, OF assms(3)] error_tests [OF assms(2)] text_tests
    response_tests server_tests [OF assms(4)]
  by blast

end
