(* ===== verification/Spec2Isabelle.thy ===== *)
theory Spec2Isabelle
  imports Bench_Slot Bench_Tests Httpsys_Tests
begin

text \<open>
  A verification development of \<open>rust-http-sys\<close>: the crate \<open>httpsys\<close> (\<open>crates/httpsys/src\<close>), an HTTP server library on
  the Windows kernel driver http.sys, and the benchmark tool \<open>httpbench\<close> (\<open>tools/httpbench/src\<close>) built on it.

  \<^bold>\<open>The program.\<close>  A \<open>ServerBuilder\<close> opens the library, a session, a URL group and a request queue and registers
  routes; \<open>run\<close> starts a server thread with a fixed number of request slots.  A slot takes a receive buffer from its
  pool, receives a request (headers and body in one call if that fits), finds the handler by the URL context, runs it and sends its
  response.  Every kernel call is an overlapped operation: an \<open>OverlappedWrap\<close> shared by reference counting
  between the task that waits, the kernel, and the completion threads of an I/O completion port.  The benchmark tool runs a
  server made with the crate (and one made with axum) as a child process, drives it with a closed-loop client, samples
  its CPU time and summarises the results.

  \<^bold>\<open>Theories.\<close>
  \<^item> \<open>Httpsys_Prelude\<close>: machine integers, results, \<open>Vec<u8>\<close> with its capacity, UTF-8, decimal numbers, trimming.
  \<^item> \<open>Httpsys_Error\<close> (\<open>error.rs\<close>): errors, status checks, the \<open>HRESULT\<close> conversion and its round trip.
  \<^item> \<open>Object_Pool\<close>: the lock-free array queue as a parameter with its documented laws, and the locale \<open>recycler\<close>: the contract of
    every free list of the crate, with the bound and freshness lemmas proved once.
  \<^item> \<open>Http_Types\<close>: the fields of the http.sys structures the crate reads.
  \<^item> \<open>Httpsys_Buffer\<close> (\<open>buffer.rs\<close>): receive buffers, their growth, the buffer pool and the body pool; both interpret
    \<open>recycler\<close>.
  \<^item> \<open>Httpsys_Overlapped\<close> (\<open>overlapped.rs\<close>): the operations of \<open>OverlappedWrap\<close>, \<open>OpPool\<close> and \<open>Op\<close>, and one step per access to
    shared memory, interleaved arbitrarily over any number of operations.  The invariant counts references, fixes what
    may be visible when, and relates a suspended task to its waker; from it follow the absence of use after free, leaks,
    torn completions and lost wakeups, and that the interleaving refines \<open>Op::finish\<close>.
  \<^item> \<open>Httpsys_Ffi\<close>: acquiring and releasing handles as computations of the state monad over the history of calls; the locale
    \<open>raii\<close> is the contract of a guard type.
  \<^item> \<open>Httpsys_Init\<close> (\<open>init.rs\<close>), \<open>Httpsys_Iocp\<close> (\<open>iocp.rs\<close>), \<open>Httpsys_Queue\<close> (\<open>queue.rs\<close>): the guards, which interpret \<open>raii\<close> (the
    queue only the weaker \<open>leaky_raii\<close> of \<open>Httpsys_Server\<close>), the completion threads and the shutdown of the port as a step relation, the
    receive protocol, body reads and responses.
  \<^item> \<open>Httpsys_Request\<close> (\<open>request.rs\<close>): accessors, methods and body reading, over the locale \<open>entity_source\<close>.
  \<^item> \<open>Httpsys_Response\<close> (\<open>response.rs\<close>): the builder and the C structure handed to http.sys, related through what the kernel
    reads from it.
  \<^item> \<open>Httpsys_Server\<close> (\<open>server.rs\<close>): configuration, builder, routes, teardown, the slot loop, and the server thread with its
    owner and slots as a step relation.  The locale \<open>slot_service\<close> is the contract of a handler table with the
    slots that run it; \<open>Bench_Slot\<close> interprets it on the benchmark's handlers.
  \<^item> \<open>Httpsys_Slots\<close> (\<open>serve\<close> and \<open>slot_loop\<close> of \<open>server.rs\<close>): all slots of a server, each at its own place in the loop, interleaved with the
    server thread and its owner over one world.  A call of http.sys or a handler is one step.  The steps of a slot
    alone are the turn of \<open>Httpsys_Server\<close>, the whole refines its server thread, and under \<open>slot_service\<close> every slot keeps serving
    whatever the others do.
  \<^item> \<open>Bench_Float\<close>, \<open>Bench_Fmt\<close> (\<open>fmt.rs\<close>), \<open>Bench_Load\<close> (\<open>load.rs\<close>), \<open>Bench_Cpu\<close> (\<open>cpu.rs\<close>), \<open>Bench_Sweep\<close> (\<open>sweep.rs\<close>),
    \<open>Bench_Chart\<close> and \<open>Bench_Report\<close> (\<open>chart.rs\<close> and the end of \<open>sweep.rs\<close>), \<open>Bench_Servers\<close> (\<open>servers.rs\<close>), \<open>Bench_Main\<close>
    (\<open>main.rs\<close>): the benchmark tool; \<open>Bench_Slot\<close>: its two handlers in the crate's slots.  A sweep is a computation that may fail or not come back; rules for what it leaves
    running, that it returns, and what it yields carry the proofs.  The report is a log of the calls it makes to the file system and
    the plotting crate, which stops at the first that fails.
  \<^item> \<open>Bench_Ieee\<close>: binary64 arithmetic on bit patterns, the instance \<open>ieee\<close> of the tool's arithmetic, with the proof that sums, products,
    quotients and conversions are nearest to the exact result.  \<open>Bench_Cli\<close> (\<open>main.rs\<close>): the options of the three commands with
    their defaults and parsers, and that the command line the sweep gives its child means what the sweep wants.
  \<^item> \<open>Httpsys_Tests\<close>, \<open>Bench_Tests\<close>: the repository's own unit tests as statements about the model, each proved.
  \<^item> This theory: properties that need the crate's components together: the benchmark server on the crate, from its handles
    to its answers, and its equivalence with the axum server.

  \<^bold>\<open>What is a parameter.\<close>  http.sys and the Win32 handle calls (\<open>kernel\<close>, \<open>http_api\<close>, the guards of the kernel's steps), \<open>AtomicWaker\<close>
  and \<open>GetOverlappedResult\<close> (\<open>ov_env\<close>), the array queue, the system message table, user handlers; for the tool the HTTP client and
  clock (\<open>net\<close>), processes (\<open>os\<close>), files and plotting (\<open>outside\<close>), axum (\<open>axum_env\<close>), how clap splits words (\<open>clap\<close>) and rounding
  arithmetic (\<open>float_env\<close>, of which \<open>ieee\<close> is the intended instance).  What a theorem needs of them is a named predicate
  (\<open>waker_ok\<close>, \<open>aq_new_ok\<close>, \<open>receive_api_ok\<close>, \<open>body_api_ok\<close>, \<open>clock_ok\<close>, \<open>os_documented\<close>, \<open>net_quiet\<close>, \<open>clap_documented\<close>, \<open>bench_api_ok\<close>), and each has a concrete
  instance in the witness of the theorem.

  \<^bold>\<open>Bounds and loops.\<close>  The body loop and the loops that wait for a clock are \<open>partial_function\<close>s whose termination is proved;
  body sizes are bounded by \<open>2 ^ 30\<close> where capacities are cast to 32 bits, since twice the length plus a chunk
  must stay below \<open>2 ^ 32\<close>.  The slot loop takes the number of turns, and its theorem holds for every number.  Buffer ceilings
  are below \<open>2 ^ 32\<close> where a capacity is passed to the kernel.  A \<open>usize\<close> is a natural number, narrowing casts are written out.

  \<^bold>\<open>What the code does not do.\<close>  Several theorems state behaviour that the code's comments or names deny: a request for whose body the
  buffer grows is lost, a port with several threads may never shut down, an early shutdown is not heard, slots whose
  handler panics are not replaced, a queue
  handle leaks when its port cannot be created, a builder that never runs terminates the library first, oversized lengths are
  cut, a recycled body vector may come back smaller than asked, the size of oversized headers may be reported as zero, \<open>4KB\<close> is four
  bytes, a duration out of range aborts, and an empty sweep panics in its summary.

  \<^bold>\<open>Not modelled.\<close>  The addresses inside \<open>as_ptr\<close> (a pointer is the data it points at), tokio's scheduler beyond interleaving, the interleaving of slots
  inside one handler, a handler that keeps its request beyond its own response, what axum and the plotting crate do with the calls they are given, progress output,
  the module roots, and of the tests those of a live process, of the plotted file and of clap's own consistency.
\<close>

section \<open>The benchmark server on the crate\<close>

text \<open>
  C30: The benchmark server takes what it needs and gives it all back.  Whatever the kernel answers, \<open>serve_httpsys\<close> either
  registers exactly its two routes, the benchmark path under context 1 and the shutdown path under context 2, with the
  handles of its builder open and nothing else, and once its server has run and was joined it returns with every handle
  released; or it reports an error with everything released again, except that a queue handle may be left over when the
  completion port could not be created.  A kernel that accepts every call gets the server up.
\<close>

theorem bench_server_setup:
  assumes "run_state (serve_httpsys_setup K message parallelism tcp_port path options) l = (r, l')"
  shows "((\<forall>l c. rc (K l c) = 0) \<longrightarrow> \<not> isl r) \<and> (case r of
      Inr b \<Rightarrow> live l' = builder_held b + live l \<and> sb_routes b = [1 \<mapsto> Bench_Route, 2 \<mapsto> Shutdown_Route] \<and>
        (case running (srv_init (sb_config b)) n of
           None \<Rightarrow> serve_httpsys K message parallelism running tcp_port path options (l, n) = None
         | Some n' \<Rightarrow> \<exists>l''. serve_httpsys K message parallelism running tcp_port path options (l, n) = Some (Inr (), l'', n') \<and>
             live l'' = live l)
    | Inl e \<Rightarrow> serve_httpsys K message parallelism running tcp_port path options (l, n) = Some (Inl e, l', n) \<and>
        (live l' = live l \<or> (\<exists>h. live l' = add_mset (RQueue h) (live l))))"
proof (cases r)
  case (Inl e)
  have "\<not> (\<forall>l c. rc (K l c) = 0)"
  proof
    assume "\<forall>l c. rc (K l c) = 0"
    then obtain b l2 where "run_state (serve_httpsys_setup K message parallelism tcp_port path options) l = (Inr b, l2)"
      using serve_httpsys_setup_succeeds [of K message parallelism tcp_port path options] unfolding succeeds_def by blast
    then show False using assms Inl by simp
  qed
  then show ?thesis using serve_httpsys_setup_live [OF assms] assms Inl
    by (simp add: at_most_queue_def serve_httpsys_def)
next
  case (Inr b)
  note run = assms [unfolded Inr]
  show ?thesis using serve_httpsys_setup_live [OF run] serve_httpsys_live [OF run, of running n] run
    by (auto simp: Inr serve_httpsys_def server_builder_run_def split: option.split)
qed

theorem bench_server_setup_witness:
  "\<exists>b l. run_state (serve_httpsys_setup willing_kernel (\<lambda>_. []) (Some 4) 8080 ''/bench/''
       \<lparr>sv_request_buffer_bytes = 16384, sv_kernel_cache = False\<rparr>) [] = (Inr b, l) \<and>
     live l = builder_held b \<and> sb_routes b 2 = Some Shutdown_Route \<and>
       (\<exists>l''. serve_httpsys willing_kernel (\<lambda>_. []) (Some 4) (\<lambda>s n. Some (n + 1)) 8080 ''/bench/''
          \<lparr>sv_request_buffer_bytes = 16384, sv_kernel_cache = False\<rparr> ([], 0 :: nat) = Some (Inr (), l'', 1) \<and> live l'' = {#})"
proof -
  obtain r l where run: "run_state (serve_httpsys_setup willing_kernel (\<lambda>_. []) (Some 4) 8080 ''/bench/''
      \<lparr>sv_request_buffer_bytes = 16384, sv_kernel_cache = False\<rparr>) [] = (r, l)" by fastforce
  moreover have "rc (willing_kernel l c) = 0" for l c by (simp add: willing_kernel_def)
  ultimately show ?thesis
    using bench_server_setup [OF run, of "\<lambda>s n. Some (n + 1)" "0 :: nat"] by (cases r) auto
qed

text \<open>
  The benchmark server serves for ever.  Once \<open>serve_httpsys\<close> is set up, every slot, started with its receive buffer and
  the shared pool of body buffers, runs any number of turns without a panic and without being lost to a handler, whenever the stop flag
  is raised and whatever requests come, if the kernel delivers bodies in sequence and none is above half a gigabyte: both pools stay in
  order, at most one response is sent per turn, and each is \<open>200 OK\<close> with the two-byte plain-text body of the
  benchmark, or the crate's 404 or 431.
\<close>

lemma bench_slot_serves:
  assumes "run_state (serve_httpsys_setup K message parallelism tcp_port path options) l = (Inr b, l')"
    and "sv_request_buffer_bytes options \<le> 131072"
    and "aq_new_ok new_buffers" and "pool \<in> set (serve_buffers new_buffers (sb_config b))" and "aq_new_ok new_bodies"
    and "bench_api_ok W (sb_queue b) A rest"
  shows "\<exists>x t. slot_loop n stop W (world_api A) (sb_queue b) sz (bench_routes W A (sb_queue b) options (sb_routes b))
      (slot_start pool \<lparr>bw_kernel = k, bw_bodies = serve_bodies new_bodies (sb_config b), bw_stops = 0\<rparr>) = Some x \<and>
    x \<in> {Continue t, Return t} \<and>
    buffer_pool_inv sz 131072 (sl_pool t) \<and> body_pool_inv (2 ^ 20) (bw_bodies (sl_kernel t)) \<and> length (sl_sent t) \<le> n \<and>
    (\<forall>(i, response) \<in> set (sl_sent t). response = response_new NOT_FOUND \<or> response = response_new HEADERS_TOO_LARGE \<or>
       wire_of (as_ptr (to_raw response)) =
         \<lparr>wire_status = 200, wire_reason = ''OK'', wire_content_type = Some ''text/plain; charset=utf-8'', wire_headers = [],
          wire_body = [79, 75]\<rparr>)"
proof -
  let ?w = "\<lparr>bw_kernel = k, bw_bodies = serve_bodies new_bodies (sb_config b), bw_stops = 0\<rparr>"
  have config: "max_request_buffer_bytes (sb_config b) = 131072" "max_pooled_body_bytes (sb_config b) = 2 ^ 20"
    "request_buffer_bytes (sb_config b) \<le> max_request_buffer_bytes (sb_config b)"
    using serve_httpsys_setup_config [OF assms(1)] assms(2) by (simp_all add: server_config_default_def Let_def)
  have "slot_inv sz 131072 (slot_start pool ?w)" using serve_buffers_inv [OF assms(3,4) config(3), of sz ?w] config(1) by simp
  moreover have "bench_ok W (sb_queue b) A rest (2 ^ 20) ?w"
    using serve_bodies_inv [OF assms(5), of "sb_config b"] assms(6) config(2) by (simp add: bench_ok_def)
  ultimately obtain x t where
    "slot_loop n stop W (world_api A) (sb_queue b) sz (bench_routes W A (sb_queue b) options (sb_routes b)) (slot_start pool ?w) = Some x"
    "x \<in> {Continue t, Return t}" "slot_inv sz 131072 t" "bench_ok W (sb_queue b) A rest (2 ^ 20) (sl_kernel t)"
    "length (sl_sent t) \<le> n" "\<forall>(i, response) \<in> set (sl_sent t). bench_answer response"
    using bench_slot.slot_loop_served [of sz 131072 "slot_start pool ?w" W "sb_queue b" A rest "2 ^ 20" n stop W "sb_queue b"
        options "sb_routes b"] by (auto simp: slot_start_def)
  then show ?thesis unfolding slot_inv_def bench_ok_def bench_answer_def reply_wire_def REPLY_def REPLY_CONTENT_TYPE_def by blast
qed

text \<open>
  C29: The benchmark server serves for ever, all slots together.  Once \<open>serve_httpsys\<close> is set up, in whatever order the server thread, its
  owner and the slots take their steps, whatever requests come and whenever it is shut down, if the kernel delivers bodies in
  sequence and none is above half a gigabyte: no slot dies of a panic, the receive buffers of every slot and the pool of body buffers they
  share stay in order, and every response any slot sends is \<open>200 OK\<close> with the two-byte plain-text body of the benchmark, or the
  crate's 404 or 431.
\<close>

theorem bench_slots_serve:
  assumes "run_state (serve_httpsys_setup K message parallelism tcp_port path options) l = (Inr b, l')"
    and "sv_request_buffer_bytes options \<le> 131072" and "aq_new_ok new_buffers" and "aq_new_ok new_bodies"
    and "bench_api_ok W (sb_queue b) A rest"
    and "serve_reachable W (world_api A) (sb_queue b) sz (bench_routes W A (sb_queue b) options (sb_routes b))
      (slot_new new_buffers (sb_config b)) (sb_config b)
      \<lparr>bw_kernel = k, bw_bodies = serve_bodies new_bodies (sb_config b), bw_stops = 0\<rparr> s"
  shows "body_pool_inv (2 ^ 20) (bw_bodies (sv_world s)) \<and>
    (\<forall>l \<in> set (sv_slots s). buffer_pool_inv sz 131072 (lc_pool l) \<and> lc_phase l \<noteq> Died) \<and>
    (\<forall>(j, i, response) \<in> set (sv_sent s). response = response_new NOT_FOUND \<or> response = response_new HEADERS_TOO_LARGE \<or>
       wire_of (as_ptr (to_raw response)) =
         \<lparr>wire_status = 200, wire_reason = ''OK'', wire_content_type = Some ''text/plain; charset=utf-8'', wire_headers = [],
          wire_body = [79, 75]\<rparr>)"
proof -
  let ?w = "\<lparr>bw_kernel = k, bw_bodies = serve_bodies new_bodies (sb_config b), bw_stops = 0\<rparr>"
  have config: "max_request_buffer_bytes (sb_config b) = 131072" "max_pooled_body_bytes (sb_config b) = 2 ^ 20"
    "request_buffer_bytes (sb_config b) \<le> max_request_buffer_bytes (sb_config b)"
    using serve_httpsys_setup_config [OF assms(1)] assms(2) by (simp_all add: server_config_default_def Let_def)
  have new: "local_ok sz 131072 (\<lambda>c. inline_bytes c \<le> 2 ^ 29) bench_answer (slot_new new_buffers (sb_config b))"
    using slot_new_ok [OF assms(3) config(3)] config(1) by simp
  have ok: "bench_ok W (sb_queue b) A rest (2 ^ 20) ?w"
    using serve_bodies_inv [OF assms(4), of "sb_config b"] assms(5) config(2) by (simp add: bench_ok_def)
  from bench_slot.serving_ok [OF assms(6) new ok] show ?thesis
    unfolding local_ok_def bench_ok_def bench_answer_def reply_wire_def REPLY_def REPLY_CONTENT_TYPE_def by fastforce
qed

theorem bench_slots_serve_witness:
  "\<exists>b l s. run_state (serve_httpsys_setup willing_kernel (\<lambda>_. []) (Some 4) 8080 ''/bench/''
       \<lparr>sv_request_buffer_bytes = 16384, sv_kernel_cache = False\<rparr>) [] = (Inr b, l) \<and>
     serve_reachable flag_env (world_api bench_api) (sb_queue b) 864
       (bench_routes flag_env bench_api (sb_queue b) \<lparr>sv_request_buffer_bytes = 16384, sv_kernel_cache = False\<rparr> (sb_routes b))
       (slot_new list_queue_new (sb_config b)) (sb_config b)
       \<lparr>bw_kernel = (), bw_bodies = serve_bodies list_queue_new (sb_config b), bw_stops = 0\<rparr> s \<and>
     length (sv_slots s) = 1 \<and> (\<forall>l \<in> set (sv_slots s). lc_phase l \<noteq> Died)"
proof -
  let ?o = "\<lparr>sv_request_buffer_bytes = 16384, sv_kernel_cache = False\<rparr>"
  have "rc (willing_kernel l c) = 0" for l c by (simp add: willing_kernel_def)
  then obtain b l where run: "run_state (serve_httpsys_setup willing_kernel (\<lambda>_. []) (Some 4) 8080 ''/bench/'' ?o) [] = (Inr b, l)"
    using serve_httpsys_setup_succeeds by (metis succeeds_def)
  have "0 < concurrency (sb_config b)" using serve_httpsys_setup_config [OF run] by (simp add: server_config_default_def Let_def)
  then obtain s where s: "serve_reachable flag_env (world_api bench_api) (sb_queue b) 864
      (bench_routes flag_env bench_api (sb_queue b) ?o (sb_routes b)) (slot_new list_queue_new (sb_config b)) (sb_config b)
      \<lparr>bw_kernel = (), bw_bodies = serve_bodies list_queue_new (sb_config b), bw_stops = 0\<rparr> s"
      "length (sv_slots s) = 1"
    using spawn_reachable [of "sb_config b" flag_env "world_api bench_api" "sb_queue b" 864
      "bench_routes flag_env bench_api (sb_queue b) ?o (sb_routes b)" "slot_new list_queue_new (sb_config b)"
      "\<lparr>bw_kernel = (), bw_bodies = serve_bodies list_queue_new (sb_config b), bw_stops = 0\<rparr>"] by fastforce
  from bench_slots_serve [OF run _ list_queue_new_ok list_queue_new_ok bench_api_documented s(1)] run s show ?thesis by auto
qed



section \<open>The benchmark from its command line\<close>

text \<open>An environment for a whole run: a clock beside the log of kernel calls, servers that answer, processes that start.\<close>

definition desk_net :: "(ffi_log \<times> nat) net" where
  "desk_net = \<lparr>tcp_connect = (\<lambda>_ n. (Inr (), n)), set_nodelay = (\<lambda>n. (Inr (), n)), handshake = (\<lambda>n. (Inr (), n)),
     build_request = (\<lambda>_. None), send_request = (\<lambda>_ n. (Inr 200, (fst n, snd n + 1))), collect_body = (\<lambda>n. (Inr (), n)),
     close_connection = (\<lambda>n. n), now = (\<lambda>n. (snd n, n)), sleep_ms = (\<lambda>k n. (fst n, snd n + k)), status_text = decimal\<rparr>"

definition desk_os :: "(ffi_log \<times> nat) os" where
  "desk_os = \<lparr>current_exe = (\<lambda>n. (Inr ''httpbench.exe'', n)), cmd_spawn = (\<lambda>_ n. (Inr 42, n)),
     try_wait = (\<lambda>_ n. (Inr True, n)), child_kill = (\<lambda>_ n. n), child_wait = (\<lambda>_ n. n), OpenProcess = (\<lambda>_ n. (Inr 7, n)),
     GetProcessTimes = (\<lambda>_ n. (Inr (\<lparr>dwLowDateTime = 0, dwHighDateTime = 0\<rparr>, \<lparr>dwLowDateTime = 0, dwHighDateTime = 0\<rparr>), n)),
     CloseProcessHandle = (\<lambda>_ n. n), run_tasks = (\<lambda>_ n. ((\<lambda>_. Joined_Ok [1000], 5), n))\<rparr>"

definition desk_axum :: "(ffi_log \<times> nat) axum_env" where
  "desk_axum = \<lparr>ax_runtime = (\<lambda>n. (Inr (), n)), ax_bind = (\<lambda>_ n. (Inr (), n)), ax_serve = (\<lambda>_ n. (Inr (), n))\<rparr>"

lemma desk_clock: "clock_ok desk_net snd"
  by (auto simp: clock_ok_def desk_net_def exchange_def single_request_def io_bind_def is_success_def Let_def)

lemma sample_keys_product:
  shows "map sample_key c = concat (map (concurrency_keys F options) ENGINES) \<Longrightarrow>
      map (\<lambda>x. (sm_engine x, sm_connections x)) c = List.product ENGINES (so_connections options)"
    and "map sample_key c = concat (map (size_keys F options) ENGINES) \<Longrightarrow>
      map (\<lambda>x. (sm_engine x, sm_body_bytes x)) c = List.product ENGINES (so_sizes options)"
  by (drule arg_cong [of _ _ "map (\<lambda>(e, x, k, b). (e, k))"],
      simp add: comp_def ENGINES_def concurrency_keys_def)
    (drule arg_cong [of _ _ "map (\<lambda>(e, x, k, b). (e, b))"], simp add: comp_def ENGINES_def size_keys_def)



section \<open>The repository's tests\<close>



end
